theory Spec2Isabelle
  imports Complex_Main "HOL-Library.AList"
begin

section \<open>Numbers and the audio device\<close>

text \<open>
  The TypeScript source computes with \<open>number\<close>. Times in milliseconds, device times in
  seconds and percentages are modelled as \<^typ>\<open>real\<close>: the finite values of the
  source, with exact arithmetic. Array indices and counters are \<^typ>\<open>int\<close> or
  \<^typ>\<open>nat\<close>. The volume is computed as the source computes it, in binary64: see
  \<open>number\<close> below.
\<close>

text \<open>\<open>Math.max(a, b, ...)\<close> on a non-empty argument list.\<close>

fun Math_max :: "real list \<Rightarrow> real" where
  "Math_max [x] = x"
| "Math_max (x # y # ys) = max x (Math_max (y # ys))"

subsection \<open>Binary64 numbers\<close>

text \<open>
  A \<open>number\<close> of the source: a finite binary64 value, given by the real it denotes, one of
  the infinities, or \<open>NaN\<close>. The sign of zero is not kept; the volume code never produces a
  negative zero, since \<open>Math.max(0, -0)\<close> is \<open>+0\<close>.
\<close>

datatype number = Num real | PosInfinity | NegInfinity | NaN

text \<open>
  Rounding a real to binary64, to nearest with ties to even. \<open>ulp_exponent x\<close> is the
  exponent of the unit in the last place of the binade of \<open>x\<close>: 53 significant bits, and
  the subnormal spacing \<open>2 powi (-1074)\<close> below \<open>2 powi (-1022)\<close>. \<open>to_number\<close> adds the
  overflow to an infinity; \<open>is_binary64 x\<close> says that \<open>x\<close> is a finite binary64 value.
\<close>

definition ulp_exponent :: "real \<Rightarrow> int" where
  "ulp_exponent x = max \<lfloor>log 2 \<bar>x\<bar>\<rfloor> (-1022) - 52"

definition round_half_even :: "real \<Rightarrow> int" where
  "round_half_even y =
     (let f = \<lfloor>y\<rfloor>
      in if y - of_int f < 1/2 then f
         else if y - of_int f > 1/2 then f + 1
         else if even f then f else f + 1)"

definition round_binary64 :: "real \<Rightarrow> real" where
  "round_binary64 x =
     (if x = 0 then 0
      else of_int (round_half_even (x / 2 powi ulp_exponent x)) * 2 powi ulp_exponent x)"


definition is_binary64 :: "real \<Rightarrow> bool" where
  "is_binary64 x \<longleftrightarrow> round_binary64 x = x \<and> \<bar>x\<bar> < 2 ^ 1024"






subsection \<open>The audio device\<close>

text \<open>
  What the managers read from the shared \<open>AudioContext\<close>: the device clock and the two
  latencies (\<open>outputLatency\<close> is undefined in Safari).
\<close>

record AudioContext =
  currentTime :: real
  baseLatency :: real
  outputLatency :: "real option"

text \<open>
  An \<open>AudioBufferSourceNode\<close>. The \<open>onended\<close> handler installed by \<open>startAudioSources\<close> is a
  closure over that call's local counter \<open>endedCount\<close>; it is identified by the number of the
  call. \<open>startArgs\<close> holds the arguments \<open>(when, offset)\<close> of \<open>source.start\<close>; \<open>stopped\<close> says
  that \<open>source.stop()\<close> was called; \<open>endedFired\<close> says that the device has already dispatched
  the node's single \<open>ended\<close> event.
\<close>

record AudioBufferSourceNode =
  buffer :: real
  onended :: "nat option"
  startArgs :: "(real \<times> real) option"
  stopped :: bool
  endedFired :: bool

section \<open>AudioManager\<close>

text \<open>
  The fields of class \<open>AudioManager\<close>. Source nodes are objects shared between the manager
  and the device, so they live in a store \<open>nodes\<close> and \<open>audioSources\<close> holds their addresses.
  \<open>endedCounts\<close> holds the closure variable \<open>endedCount\<close> of every call of
  \<open>startAudioSources\<close>; \<open>endEmitted\<close> counts the calls of \<open>eventEmitter.emit("end")\<close>.
  A decoded \<open>AudioBuffer\<close> is represented by its duration in seconds, the gain node by the
  value assigned to its \<open>gain.value\<close>. \<open>endEventTimeout\<close> is the timer handle (with the delay it was armed for);
  \<open>timerPending\<close> says that the timer behind the handle has neither fired nor been cleared.
\<close>

record AudioManager =
  nodes :: "AudioBufferSourceNode list"
  endedCounts :: "nat list"
  endEmitted :: nat
  audioBuffers :: "real list"
  gainNode :: "number option"
  audioSources :: "nat list"
  m_volume :: number
  lastSeekChartTimeMs :: real
  lastAudioCtxCurrentTime :: real
  audioLengthMs :: real
  endEventTimeout :: "real option"
  timerPending :: bool
  m_isPaused :: bool
  startDelayMs :: real
  fallbackAudioLengthMs :: real

text \<open>The constructor with the field initialisers, and \<open>decodeAudioFiles\<close>.\<close>

definition AudioManager_new :: "real \<Rightarrow> real \<Rightarrow> AudioManager" where
  "AudioManager_new startDelay fallbackLength =
     \<lparr> nodes = [], endedCounts = [], endEmitted = 0, audioBuffers = [], gainNode = None,
       audioSources = [], m_volume = Num 0.5, lastSeekChartTimeMs = 0,
       lastAudioCtxCurrentTime = 0, audioLengthMs = 0, endEventTimeout = None,
       timerPending = False, m_isPaused = True, startDelayMs = startDelay,
       fallbackAudioLengthMs = fallbackLength \<rparr>"

definition decodeAudioFiles :: "real list \<Rightarrow> AudioManager \<Rightarrow> AudioManager" where
  "decodeAudioFiles durations m =
     (let calculatedLengthMs =
            (if length durations > 0 then Math_max durations * 1000 else 0)
      in m\<lparr> audioBuffers := durations,
             audioLengthMs := (if calculatedLengthMs > 0 then calculatedLengthMs
                               else fallbackAudioLengthMs m) \<rparr>)"

definition AudioManager_create :: "real list \<Rightarrow> real \<Rightarrow> real \<Rightarrow> AudioManager" where
  "AudioManager_create durations startDelay fallbackLength =
     decodeAudioFiles durations (AudioManager_new startDelay fallbackLength)"



text \<open>The getters \<open>chartCurrentTimeMs\<close> and \<open>chartEndTimeMs\<close>.\<close>

definition chartCurrentTimeMs :: "AudioContext \<Rightarrow> AudioManager \<Rightarrow> real" where
  "chartCurrentTimeMs ctx m =
     (if m_isPaused m then lastSeekChartTimeMs m
      else
        let audioLatency =
              (baseLatency ctx + (case outputLatency ctx of Some l \<Rightarrow> l | None \<Rightarrow> 0)) * 1000;
            audioTimeSinceLastSeekMs = (currentTime ctx - lastAudioCtxCurrentTime m) * 1000
        in lastSeekChartTimeMs m + audioTimeSinceLastSeekMs - audioLatency)"

definition chartEndTimeMs :: "AudioManager \<Rightarrow> real" where
  "chartEndTimeMs m =
     (let theoreticalEndTime = startDelayMs m + audioLengthMs m
      in Math_max [theoreticalEndTime, audioLengthMs m, fallbackAudioLengthMs m, 0])"

text \<open>
  \<open>setTimeout\<close> into \<open>endEventTimeout\<close>, and the recurring
  \<open>if (this.endEventTimeout) { clearTimeout(...); this.endEventTimeout = null }\<close>.
\<close>

definition armEndEventTimeout :: "real \<Rightarrow> AudioManager \<Rightarrow> AudioManager" where
  "armEndEventTimeout delay m = m\<lparr> endEventTimeout := Some delay, timerPending := True \<rparr>"

definition clearEndEventTimeout :: "AudioManager \<Rightarrow> AudioManager" where
  "clearEndEventTimeout m =
     (case endEventTimeout m of
        Some _ \<Rightarrow> m\<lparr> endEventTimeout := None, timerPending := False \<rparr>
      | None \<Rightarrow> m)"

text \<open>
  \<open>stopAudioSources\<close>: every source of this instance loses its handler and is stopped, the
  list is emptied and the gain node is dropped.
\<close>

definition stop_source :: "nat \<Rightarrow> AudioBufferSourceNode list \<Rightarrow> AudioBufferSourceNode list" where
  "stop_source i ns =
     (if i < length ns then ns[i := (ns ! i)\<lparr> onended := None, stopped := True \<rparr>] else ns)"

definition stopAudioSources :: "AudioManager \<Rightarrow> AudioManager" where
  "stopAudioSources m =
     m\<lparr> nodes := fold stop_source (audioSources m) (nodes m),
        audioSources := [],
        gainNode := None \<rparr>"

text \<open>
  \<open>startAudioSources\<close>. The body of its \<open>for\<close> loop is \<open>start_one\<close>: a node is created for
  the buffer, gets the handler of this call (\<open>k\<close>), and is started with
  \<open>when = currentTime + |min(offset, 0)|\<close> and \<open>offset = max(offset, 0)\<close>.
\<close>

definition start_one :: "AudioContext \<Rightarrow> nat \<Rightarrow> real \<Rightarrow> AudioManager \<Rightarrow> real \<Rightarrow> AudioManager" where
  "start_one ctx k audioStartOffsetSeconds m audioBuffer =
     (let delaySeconds = \<bar>min audioStartOffsetSeconds 0\<bar>;
          when = currentTime ctx + delaySeconds;
          offset = max audioStartOffsetSeconds 0;
          source = \<lparr> buffer = audioBuffer, onended = Some k,
                     startArgs = Some (when, offset), stopped = False, endedFired = False \<rparr>
      in m\<lparr> nodes := nodes m @ [source],
             audioSources := audioSources m @ [length (nodes m)] \<rparr>)"

definition startAudioSources :: "AudioContext \<Rightarrow> AudioManager \<Rightarrow> AudioManager" where
  "startAudioSources ctx m0 =
     (let m1 = stopAudioSources m0;
          m2 = m1\<lparr> gainNode := Some (m_volume m1) \<rparr>;
          k = length (endedCounts m2);
          m3 = m2\<lparr> endedCounts := endedCounts m2 @ [0] \<rparr>;
          audioStartOffsetSeconds = (lastSeekChartTimeMs m3 - startDelayMs m3) / 1000;
          m4 = (if length (audioBuffers m3) = 0 then
                  let m3' = clearEndEventTimeout m3;
                      remainingMs = chartEndTimeMs m3' - lastSeekChartTimeMs m3'
                  in if remainingMs > 0 then armEndEventTimeout remainingMs m3'
                     else m3'
                else m3);
          m5 = foldl (start_one ctx k audioStartOffsetSeconds) m4 (audioBuffers m4)
      in m5\<lparr> lastAudioCtxCurrentTime := currentTime ctx \<rparr>)"

text \<open>
  \<open>play\<close>, \<open>pause\<close> and \<open>seek\<close>. The device is taken to be running, so \<open>play\<close> does not wait
  for \<open>audioCtx.resume()\<close>; each method then runs to completion without interruption.
\<close>

definition play :: "AudioContext \<Rightarrow> AudioManager \<Rightarrow> AudioManager" where
  "play ctx m =
     (let m1 = (startAudioSources ctx m)\<lparr> m_isPaused := False \<rparr>
      in if length (audioBuffers m1) = 0 \<and> endEventTimeout m1 = None then
           let remainingMs = chartEndTimeMs m1 - chartCurrentTimeMs ctx m1
           in if remainingMs > 0 then armEndEventTimeout remainingMs m1 else m1
         else m1)"

definition pause :: "AudioContext \<Rightarrow> AudioManager \<Rightarrow> AudioManager" where
  "pause ctx m =
     (let currentTime' = chartCurrentTimeMs ctx m;
          m1 = m\<lparr> m_isPaused := True, lastSeekChartTimeMs := currentTime',
                  lastAudioCtxCurrentTime := currentTime ctx \<rparr>
      in stopAudioSources (clearEndEventTimeout m1))"

definition seek :: "AudioContext \<Rightarrow> real \<Rightarrow> AudioManager \<Rightarrow> AudioManager" where
  "seek ctx percentComplete m =
     (let m1 = stopAudioSources (clearEndEventTimeout m);
          chartSeekTimeMs = percentComplete * chartEndTimeMs m1
      in m1\<lparr> lastSeekChartTimeMs := chartSeekTimeMs,
              lastAudioCtxCurrentTime := currentTime ctx,
              m_isPaused := True \<rparr>)"

section \<open>SilentAudioManager\<close>

text \<open>
  The wall-clock manager used when no audio device exists. Its time source is
  \<open>performance.now()\<close>, passed as \<open>now\<close>. Timeouts are kept as they are in the host:
  \<open>s_timers\<close> lists the pending ones, each with its identifier and the clock time at which
  it is due; \<open>s_endEventTimeout\<close> is the identifier that the field \<open>endEventTimeout\<close> holds;
  \<open>s_endEmitted\<close> counts the calls of \<open>eventEmitter.emit("end")\<close>. The two time fields
  have no initialiser in the source; they start at 0 here, and \<open>create\<close> sets the chart time
  by \<open>seek(0)\<close> before anything reads it.
\<close>

record SilentAudioManager =
  s_timers :: "(nat \<times> real) list"
  s_nextTimer :: nat
  s_endEmitted :: nat
  s_endEventTimeout :: "nat option"
  s_isPaused :: bool
  lastResumeChartTimeMs :: real
  lastResumeClockTimeMs :: real
  s_startDelayMs :: real
  s_audioLengthMs :: real

text \<open>
  \<open>this.endEventTimeout = setTimeout(callback, delay)\<close> at clock time \<open>now\<close> (a negative
  delay counts as 0), and \<open>clearTimeout(id)\<close>.
\<close>

definition s_setTimeout :: "real \<Rightarrow> real \<Rightarrow> SilentAudioManager \<Rightarrow> SilentAudioManager" where
  "s_setTimeout now delay m =
     m\<lparr> s_timers := s_timers m @ [(s_nextTimer m, now + max delay 0)],
        s_endEventTimeout := Some (s_nextTimer m),
        s_nextTimer := s_nextTimer m + 1 \<rparr>"

definition s_clearTimeout :: "nat \<Rightarrow> (nat \<times> real) list \<Rightarrow> (nat \<times> real) list" where
  "s_clearTimeout ident timers = filter (\<lambda>t. fst t \<noteq> ident) timers"

definition s_chartCurrentTimeMs :: "real \<Rightarrow> SilentAudioManager \<Rightarrow> real" where
  "s_chartCurrentTimeMs now m =
     (if s_isPaused m then lastResumeChartTimeMs m
      else lastResumeChartTimeMs m + now - lastResumeClockTimeMs m)"

definition s_chartEndTimeMs :: "SilentAudioManager \<Rightarrow> real" where
  "s_chartEndTimeMs m =
     (let theoreticalEndTime = s_startDelayMs m + s_audioLengthMs m
      in Math_max [theoreticalEndTime, s_audioLengthMs m, 0])"

text \<open>
  \<open>play\<close> arms a new timeout and overwrites the handle; it does not clear the timeout the
  handle held before. \<open>pause\<close> clears the timeout of the handle and keeps the handle.
\<close>

definition s_play :: "real \<Rightarrow> SilentAudioManager \<Rightarrow> SilentAudioManager" where
  "s_play now m =
     (let m1 = (if lastResumeChartTimeMs m \<ge> s_chartEndTimeMs m - 2
                then m\<lparr> lastResumeChartTimeMs := 0 \<rparr> else m);
          m2 = m1\<lparr> lastResumeClockTimeMs := now \<rparr>;
          m3 = s_setTimeout now (s_chartEndTimeMs m2 - lastResumeChartTimeMs m2) m2
      in m3\<lparr> s_isPaused := False \<rparr>)"

definition s_pause :: "real \<Rightarrow> SilentAudioManager \<Rightarrow> SilentAudioManager" where
  "s_pause now m =
     (let m1 = m\<lparr> lastResumeChartTimeMs := s_chartCurrentTimeMs now m \<rparr>;
          m2 = (case s_endEventTimeout m1 of
                  Some ident \<Rightarrow> m1\<lparr> s_timers := s_clearTimeout ident (s_timers m1) \<rparr>
                | None \<Rightarrow> m1)
      in m2\<lparr> s_isPaused := True \<rparr>)"

definition s_seek :: "real \<Rightarrow> real \<Rightarrow> SilentAudioManager \<Rightarrow> SilentAudioManager" where
  "s_seek now percentComplete m =
     (let m1 = m\<lparr> lastResumeChartTimeMs := s_chartEndTimeMs m * percentComplete \<rparr>
      in if \<not> s_isPaused m1 then s_play now m1 else m1)"

text \<open>
  The host runs the callback of the pending timeout \<open>ident\<close> at clock time \<open>now\<close>: the
  callback that \<open>play\<close> gave it calls \<open>pause()\<close> and emits \<open>end\<close>.
\<close>

definition s_timeout_fired :: "nat \<Rightarrow> real \<Rightarrow> SilentAudioManager \<Rightarrow> SilentAudioManager" where
  "s_timeout_fired ident now m =
     (if ident \<in> fst ` set (s_timers m) then
        let m1 = m\<lparr> s_timers := s_clearTimeout ident (s_timers m) \<rparr>;
            m2 = s_pause now m1
        in m2\<lparr> s_endEmitted := s_endEmitted m2 + 1 \<rparr>
      else m)"

text \<open>The constructor followed by \<open>seek(0)\<close>, as in \<open>SilentAudioManager.create\<close>.\<close>

definition SilentAudioManager_create :: "real \<Rightarrow> real \<Rightarrow> real \<Rightarrow> SilentAudioManager" where
  "SilentAudioManager_create now startDelay audioLength =
     s_seek now 0 \<lparr> s_timers = [], s_nextTimer = 0, s_endEmitted = 0,
                    s_endEventTimeout = None, s_isPaused = True,
                    lastResumeChartTimeMs = 0, lastResumeClockTimeMs = 0,
                    s_startDelayMs = startDelay, s_audioLengthMs = audioLength \<rparr>"


section \<open>Events delivered to the AudioManager\<close>

text \<open>
  The handler that \<open>startAudioSources\<close> call number \<open>k\<close> installs as \<open>source.onended\<close>:
  it increments that call's \<open>endedCount\<close> and emits \<open>end\<close> when the count equals the number
  of buffers while the instance is not paused.
\<close>

definition onended_handler :: "nat \<Rightarrow> AudioManager \<Rightarrow> AudioManager" where
  "onended_handler k m =
     (let m1 = m\<lparr> endedCounts := (endedCounts m)[k := endedCounts m ! k + 1] \<rparr>
      in if endedCounts m1 ! k = length (audioBuffers m1) \<and> \<not> m_isPaused m1
         then m1\<lparr> endEmitted := endEmitted m1 + 1 \<rparr> else m1)"

text \<open>
  The device dispatches the \<open>ended\<close> event of node \<open>i\<close>, once per started node, after the
  node played to its end or was stopped; the event runs whatever handler \<open>onended\<close> holds at
  that moment. The timer behind \<open>endEventTimeout\<close> fires once if it is still pending; its
  callback emits \<open>end\<close>.
\<close>

definition dispatch_ended :: "nat \<Rightarrow> AudioManager \<Rightarrow> AudioManager" where
  "dispatch_ended i m =
     (if i < length (nodes m) \<and> startArgs (nodes m ! i) \<noteq> None \<and> \<not> endedFired (nodes m ! i)
      then
        let m1 = m\<lparr> nodes := (nodes m)[i := (nodes m ! i)\<lparr> endedFired := True \<rparr>] \<rparr>
        in case onended (nodes m ! i) of
             None \<Rightarrow> m1
           | Some k \<Rightarrow> onended_handler k m1
      else m)"

definition timer_fired :: "AudioManager \<Rightarrow> AudioManager" where
  "timer_fired m =
     (if timerPending m then m\<lparr> timerPending := False, endEmitted := endEmitted m + 1 \<rparr>
      else m)"

text \<open>
  One turn of the single-threaded event loop on an \<open>AudioManager\<close>: a method call by the
  owner, or a callback run by the host. A run is a list of turns.
\<close>

datatype am_event =
    Play AudioContext
  | Pause AudioContext
  | Seek AudioContext real
  | Ended nat
  | TimerFired

fun am_step :: "am_event \<Rightarrow> AudioManager \<Rightarrow> AudioManager" where
  "am_step (Play ctx) m = play ctx m"
| "am_step (Pause ctx) m = pause ctx m"
| "am_step (Seek ctx percentComplete) m = seek ctx percentComplete m"
| "am_step (Ended i) m = dispatch_ended i m"
| "am_step TimerFired m = timer_fired m"

definition am_run :: "am_event list \<Rightarrow> AudioManager \<Rightarrow> AudioManager" where
  "am_run evs m = fold am_step evs m"

fun is_Play :: "am_event \<Rightarrow> bool" where
  "is_Play (Play _) = True"
| "is_Play _ = False"

fun is_stop :: "am_event \<Rightarrow> bool" where
  "is_stop (Pause _) = True"
| "is_stop (Seek _ _) = True"
| "is_stop _ = False"

text \<open>
  The nodes whose \<open>ended\<close> event a run delivers before its first \<open>pause\<close> or \<open>seek\<close>.
\<close>

fun ended_before_stop :: "am_event list \<Rightarrow> nat set" where
  "ended_before_stop [] = {}"
| "ended_before_stop (Ended i # evs) = insert i (ended_before_stop evs)"
| "ended_before_stop (e # evs) = (if is_stop e then {} else ended_before_stop evs)"

section \<open>The frame loop of ChartPreview\<close>

text \<open>
  The part of \<open>ChartPreview\<close> that \<open>animateFrame\<close> uses for progress notifications.
  \<open>progressEmitted\<close> is the log of \<open>emit("progress", value)\<close>, each with the
  \<open>performance.now()\<close> reading of its frame. A frame is given by the \<open>emit\<close> argument, that
  reading, and the value \<open>chartCurrentTimeMs / chartEndTimeMs\<close> it would report.
\<close>

record ChartPreview =
  progressIntervalMs :: real
  lastProgressEmitTime :: real
  progressEmitted :: "(real \<times> real) list"

definition animateFrame :: "bool \<times> real \<times> real \<Rightarrow> ChartPreview \<Rightarrow> ChartPreview" where
  "animateFrame frame cp =
     (case frame of (emit, now, progress) \<Rightarrow>
        if emit then
          (if now - lastProgressEmitTime cp \<ge> progressIntervalMs cp
           then cp\<lparr> lastProgressEmitTime := now,
                    progressEmitted := progressEmitted cp @ [(now, progress)] \<rparr>
           else cp)
        else cp)"

definition animateFrames :: "(bool \<times> real \<times> real) list \<Rightarrow> ChartPreview \<Rightarrow> ChartPreview" where
  "animateFrames frames cp = fold animateFrame frames cp"

definition ChartPreview_new :: "real \<Rightarrow> ChartPreview" where
  "ChartPreview_new interval =
     \<lparr> progressIntervalMs = interval, lastProgressEmitTime = 0, progressEmitted = [] \<rparr>"

section \<open>EventSequence\<close>

text \<open>
  An event as \<open>EventSequence\<close> sees it, with its \<open>type\<close> (the lane; \<open>undefined\<close> is one more
  value of \<open>'l\<close>). The \<open>Map\<close> \<open>lastPrecedingEventIndexesOfType\<close> is an association list in
  insertion order: \<open>Map.set\<close> on a present key keeps the key's place, as \<open>AList.update\<close> does.
\<close>

record 'l TimedEvent =
  msTime :: real
  msLength :: real
  type :: 'l

record 'l EventSequence =
  events :: "'l TimedEvent list"
  lastPrecedingEventIndexesOfType :: "('l \<times> int) list"
  lastPrecedingEventIndex :: int

datatype js_error = TypeError

definition EventSequence_new :: "'l TimedEvent list \<Rightarrow> 'l EventSequence" where
  "EventSequence_new es =
     \<lparr> events = es, lastPrecedingEventIndexesOfType = [], lastPrecedingEventIndex = -1 \<rparr>"

text \<open>\<open>xs[i]\<close>: \<open>undefined\<close> (here \<open>None\<close>) outside the array.\<close>

definition array_get :: "'a list \<Rightarrow> int \<Rightarrow> 'a option" where
  "array_get xs i = (if 0 \<le> i \<and> i < int (length xs) then Some (xs ! nat i) else None)"

text \<open>
  The three phases of \<open>getEarliestActiveEventIndex\<close>: the reset on a backward jump, the
  \<open>while\<close> loop (\<open>scan_step\<close> is its body, for the event \<open>e\<close> at
  \<open>lastPrecedingEventIndex + 1\<close>), and the \<open>for\<close> loop over the entries of the map. Reading
  \<open>.msTime\<close> of \<open>undefined\<close> throws a \<open>TypeError\<close>.
\<close>

definition reset_cursor :: "real \<Rightarrow> 'l EventSequence \<Rightarrow> js_error + 'l EventSequence" where
  "reset_cursor startMs s =
     (if lastPrecedingEventIndex s \<noteq> -1 then
        (case array_get (events s) (lastPrecedingEventIndex s) of
           None \<Rightarrow> Inl TypeError
         | Some e \<Rightarrow>
             if startMs < msTime e
             then Inr (s\<lparr> lastPrecedingEventIndexesOfType := [],
                          lastPrecedingEventIndex := -1 \<rparr>)
             else Inr s)
      else Inr s)"

definition scan_step :: "'l TimedEvent \<Rightarrow> 'l EventSequence \<Rightarrow> 'l EventSequence" where
  "scan_step e s =
     s\<lparr> lastPrecedingEventIndexesOfType :=
          AList.update (type e) (lastPrecedingEventIndex s + 1)
            (lastPrecedingEventIndexesOfType s),
        lastPrecedingEventIndex := lastPrecedingEventIndex s + 1 \<rparr>"

function scan_forward :: "real \<Rightarrow> 'l EventSequence \<Rightarrow> 'l EventSequence" where
  "scan_forward startMs s =
     (case array_get (events s) (lastPrecedingEventIndex s + 1) of
        None \<Rightarrow> s
      | Some e \<Rightarrow> if msTime e < startMs then scan_forward startMs (scan_step e s) else s)"
  by pat_completeness auto
termination
  by (relation "measure (\<lambda>(t, s). nat (int (length (events s)) - lastPrecedingEventIndex s))")
     (auto simp: array_get_def scan_step_def split: if_splits)

declare scan_forward.simps [simp del]

fun earliest_active ::
  "'l TimedEvent list \<Rightarrow> real \<Rightarrow> ('l \<times> int) list \<Rightarrow> int option \<Rightarrow> js_error + int option" where
  "earliest_active es startMs [] earliestActiveEventIndex = Inr earliestActiveEventIndex"
| "earliest_active es startMs ((ty, index) # rest) earliestActiveEventIndex =
     (case array_get es index of
        None \<Rightarrow> Inl TypeError
      | Some e \<Rightarrow>
          if msTime e + msLength e > startMs then
            (if (case earliestActiveEventIndex of None \<Rightarrow> True | Some a \<Rightarrow> a > index)
             then earliest_active es startMs rest (Some index)
             else earliest_active es startMs rest earliestActiveEventIndex)
          else earliest_active es startMs rest earliestActiveEventIndex)"

definition getEarliestActiveEventIndex ::
  "real \<Rightarrow> 'l EventSequence \<Rightarrow> js_error + (int \<times> 'l EventSequence)" where
  "getEarliestActiveEventIndex startMs s0 =
     (case reset_cursor startMs s0 of
        Inl err \<Rightarrow> Inl err
      | Inr s1 \<Rightarrow>
          let s2 = scan_forward startMs s1
          in (case earliest_active (events s2) startMs
                      (lastPrecedingEventIndexesOfType s2) None of
                Inl err \<Rightarrow> Inl err
              | Inr None \<Rightarrow> Inr (lastPrecedingEventIndex s2 + 1, s2)
              | Inr (Some i) \<Rightarrow> Inr (i, s2)))"

text \<open>
  Successive queries on one sequence: the results in order and the final cursor, or the
  first error.
\<close>

fun queries ::
  "real list \<Rightarrow> 'l EventSequence \<Rightarrow> js_error + (int list \<times> 'l EventSequence)" where
  "queries [] s = Inr ([], s)"
| "queries (t # ts) s =
     (case getEarliestActiveEventIndex t s of
        Inl err \<Rightarrow> Inl err
      | Inr (r, s') \<Rightarrow>
          (case queries ts s' of
             Inl err \<Rightarrow> Inl err
           | Inr (rs, s'') \<Rightarrow> Inr (r # rs, s'')))"

section \<open>Invariants of the AudioManager\<close>

text \<open>
  \<open>handlers_tracked\<close>: the sources the instance holds exist, every node that still has a
  handler is held in \<open>audioSources\<close>, and no timer is pending when there are buffers.
  \<open>all_detached\<close>: the instance holds no source, no node has a handler and no timer is
  pending.
\<close>

definition handlers_tracked :: "AudioManager \<Rightarrow> bool" where
  "handlers_tracked m \<longleftrightarrow>
     (\<forall>i \<in> set (audioSources m). i < length (nodes m)) \<and>
     (\<forall>i < length (nodes m). onended (nodes m ! i) \<noteq> None \<longrightarrow> i \<in> set (audioSources m)) \<and>
     (audioBuffers m \<noteq> [] \<longrightarrow> \<not> timerPending m)"

definition all_detached :: "AudioManager \<Rightarrow> bool" where
  "all_detached m \<longleftrightarrow>
     audioSources m = [] \<and> (\<forall>n \<in> set (nodes m). onended n = None) \<and> \<not> timerPending m"

text \<open>
  \<open>session_inv e0 k F m\<close>: the instance is playing the sources started by
  \<open>startAudioSources\<close> call \<open>k\<close>, one per buffer; exactly those among them whose address is in
  \<open>F\<close> have had their \<open>ended\<close> event; the call's counter is their number; and \<open>end\<close> has been
  emitted once more than the \<open>e0\<close> times before the session if all of them have, else \<open>e0\<close>
  times.
\<close>

definition session_inv :: "nat \<Rightarrow> nat \<Rightarrow> nat set \<Rightarrow> AudioManager \<Rightarrow> bool" where
  "session_inv e0 k F m \<longleftrightarrow>
     distinct (audioSources m) \<and> audioSources m \<noteq> [] \<and>
     length (audioSources m) = length (audioBuffers m) \<and>
     (\<forall>i \<in> set (audioSources m).
        i < length (nodes m) \<and> onended (nodes m ! i) = Some k \<and>
        startArgs (nodes m ! i) \<noteq> None \<and> (endedFired (nodes m ! i) \<longleftrightarrow> i \<in> F)) \<and>
     (\<forall>i < length (nodes m). i \<notin> set (audioSources m) \<longrightarrow> onended (nodes m ! i) = None) \<and>
     \<not> m_isPaused m \<and> \<not> timerPending m \<and>
     k < length (endedCounts m) \<and>
     endedCounts m ! k = card (set (audioSources m) \<inter> F) \<and>
     endEmitted m = e0 + (if set (audioSources m) \<subseteq> F then 1 else 0)"

section \<open>Notions used to state the behaviour of EventSequence\<close>

text \<open>
  Event \<open>i\<close> is the last of its type among the events up to index \<open>L\<close>; event \<open>i\<close> has not
  ended at \<open>nowMs\<close>; the lowest index up to \<open>L\<close> with both properties, or \<open>L + 1\<close> if there
  is none.
\<close>

definition last_of_type :: "'l TimedEvent list \<Rightarrow> int \<Rightarrow> int \<Rightarrow> bool" where
  "last_of_type es L i \<longleftrightarrow> (\<forall>j \<in> {i + 1 .. L}. type (es ! nat j) \<noteq> type (es ! nat i))"

definition still_open :: "'l TimedEvent list \<Rightarrow> real \<Rightarrow> int \<Rightarrow> bool" where
  "still_open es nowMs i \<longleftrightarrow> msTime (es ! nat i) + msLength (es ! nat i) > nowMs"

definition open_recorded :: "'l TimedEvent list \<Rightarrow> int \<Rightarrow> real \<Rightarrow> int set" where
  "open_recorded es L nowMs = {i \<in> {0 .. L}. last_of_type es L i \<and> still_open es nowMs i}"

definition lowest_open_recorded :: "'l TimedEvent list \<Rightarrow> int \<Rightarrow> real \<Rightarrow> int" where
  "lowest_open_recorded es L nowMs =
     (if open_recorded es L nowMs = {} then L + 1 else Min (open_recorded es L nowMs))"

text \<open>
  The cursor is consistent: \<open>lastPrecedingEventIndex\<close> is \<open>-1\<close> or an index of \<open>events\<close>, and
  the map holds, for each type that occurs up to that index, the last index of that type.
\<close>

definition cursor_ok :: "'l EventSequence \<Rightarrow> bool" where
  "cursor_ok s \<longleftrightarrow>
     -1 \<le> lastPrecedingEventIndex s \<and>
     lastPrecedingEventIndex s < int (length (events s)) \<and>
     distinct (map fst (lastPrecedingEventIndexesOfType s)) \<and>
     (\<forall>(ty, i) \<in> set (lastPrecedingEventIndexesOfType s).
        0 \<le> i \<and> i \<le> lastPrecedingEventIndex s \<and> type (events s ! nat i) = ty \<and>
        last_of_type (events s) (lastPrecedingEventIndex s) i) \<and>
     (\<forall>j \<in> {0 .. lastPrecedingEventIndex s}.
        type (events s ! nat j) \<in> fst ` set (lastPrecedingEventIndexesOfType s))"

text \<open>
  The contract of \<open>query\<close> as the specification words it: event \<open>i\<close> qualifies at \<open>nowMs\<close> if
  it is unscanned and starts before \<open>nowMs\<close>, or was scanned before and
  \<open>msTime + msLength > nowMs\<close>; the answer is the lowest qualifying index.
\<close>

definition qualifies :: "'l EventSequence \<Rightarrow> real \<Rightarrow> int \<Rightarrow> bool" where
  "qualifies s nowMs i \<longleftrightarrow>
     (if i > lastPrecedingEventIndex s then msTime (events s ! nat i) < nowMs
      else msTime (events s ! nat i) + msLength (events s ! nat i) > nowMs)"

definition lowest_qualifying :: "'l EventSequence \<Rightarrow> real \<Rightarrow> int option" where
  "lowest_qualifying s nowMs =
     (case filter (qualifies s nowMs) [0 .. int (length (events s)) - 1] of
        [] \<Rightarrow> None
      | i # _ \<Rightarrow> Some i)"

text \<open>The cursor after the first phase of a query at \<open>t\<close>, when no error occurs.\<close>

definition cursor_after_reset :: "real \<Rightarrow> 'l EventSequence \<Rightarrow> 'l EventSequence" where
  "cursor_after_reset t s =
     (if lastPrecedingEventIndex s \<noteq> -1 \<and>
         t < msTime (events s ! nat (lastPrecedingEventIndex s))
      then s\<lparr> lastPrecedingEventIndexesOfType := [], lastPrecedingEventIndex := -1 \<rparr>
      else s)"

section \<open>Facts about the audio managers\<close>

subsection \<open>Fields left alone by the helpers\<close>

lemma foldl_start_one_nodes:
  "nodes (foldl (start_one ctx k off) m bs) =
     nodes m @ map (\<lambda>b. \<lparr> buffer = b, onended = Some k,
        startArgs = Some (currentTime ctx + \<bar>min off 0\<bar>, max off 0),
        stopped = False, endedFired = False \<rparr>) bs"
  by (induction bs arbitrary: m) (simp_all add: start_one_def Let_def)

lemma foldl_start_one_sources:
  "audioSources (foldl (start_one ctx k off) m bs) =
     audioSources m @ [length (nodes m) ..< length (nodes m) + length bs]"
proof (induction bs arbitrary: m)
  case Nil
  then show ?case by simp
next
  case (Cons b bs)
  have "[length (nodes m) ..< length (nodes m) + length (b # bs)]
        = length (nodes m) # [Suc (length (nodes m)) ..< Suc (length (nodes m)) + length bs]"
    by (simp add: upt_rec)
  then show ?case using Cons by (simp add: start_one_def Let_def)
qed

lemma foldl_start_one_other:
  "audioBuffers (foldl (start_one ctx k off) m bs) = audioBuffers m"
  "m_isPaused (foldl (start_one ctx k off) m bs) = m_isPaused m"
  "endEmitted (foldl (start_one ctx k off) m bs) = endEmitted m"
  "endedCounts (foldl (start_one ctx k off) m bs) = endedCounts m"
  "timerPending (foldl (start_one ctx k off) m bs) = timerPending m"
  "endEventTimeout (foldl (start_one ctx k off) m bs) = endEventTimeout m"
  "gainNode (foldl (start_one ctx k off) m bs) = gainNode m"
  "lastSeekChartTimeMs (foldl (start_one ctx k off) m bs) = lastSeekChartTimeMs m"
  "startDelayMs (foldl (start_one ctx k off) m bs) = startDelayMs m"
  "audioLengthMs (foldl (start_one ctx k off) m bs) = audioLengthMs m"
  "fallbackAudioLengthMs (foldl (start_one ctx k off) m bs) = fallbackAudioLengthMs m"
  "m_volume (foldl (start_one ctx k off) m bs) = m_volume m"
  by (induction bs arbitrary: m; simp add: start_one_def Let_def)+

lemma clearEndEventTimeout_fields:
  "nodes (clearEndEventTimeout m) = nodes m"
  "audioSources (clearEndEventTimeout m) = audioSources m"
  "audioBuffers (clearEndEventTimeout m) = audioBuffers m"
  "m_isPaused (clearEndEventTimeout m) = m_isPaused m"
  "endEmitted (clearEndEventTimeout m) = endEmitted m"
  "endedCounts (clearEndEventTimeout m) = endedCounts m"
  "gainNode (clearEndEventTimeout m) = gainNode m"
  "lastSeekChartTimeMs (clearEndEventTimeout m) = lastSeekChartTimeMs m"
  "startDelayMs (clearEndEventTimeout m) = startDelayMs m"
  "audioLengthMs (clearEndEventTimeout m) = audioLengthMs m"
  "fallbackAudioLengthMs (clearEndEventTimeout m) = fallbackAudioLengthMs m"
  "m_volume (clearEndEventTimeout m) = m_volume m"
  "timerPending (clearEndEventTimeout m) = (timerPending m \<and> endEventTimeout m = None)"
  "endEventTimeout (clearEndEventTimeout m) = None"
  by (simp_all add: clearEndEventTimeout_def split: option.splits)

lemma chartEndTimeMs_cong:
  "startDelayMs m' = startDelayMs m \<Longrightarrow> audioLengthMs m' = audioLengthMs m \<Longrightarrow>
   fallbackAudioLengthMs m' = fallbackAudioLengthMs m \<Longrightarrow> chartEndTimeMs m' = chartEndTimeMs m"
  by (simp add: chartEndTimeMs_def)

lemma s_chartEndTimeMs_cong:
  "s_startDelayMs m' = s_startDelayMs m \<Longrightarrow> s_audioLengthMs m' = s_audioLengthMs m \<Longrightarrow>
   s_chartEndTimeMs m' = s_chartEndTimeMs m"
  by (simp add: s_chartEndTimeMs_def)

lemma length_fold_stop_source: "length (fold stop_source is ns) = length ns"
  by (induction "is" arbitrary: ns) (simp_all add: stop_source_def)

lemma startAudioSources_nodes:
  "nodes (startAudioSources ctx m) =
     fold stop_source (audioSources m) (nodes m) @
     map (\<lambda>b. \<lparr> buffer = b, onended = Some (length (endedCounts m)),
        startArgs = Some (currentTime ctx + \<bar>min ((lastSeekChartTimeMs m - startDelayMs m) / 1000) 0\<bar>,
                          max ((lastSeekChartTimeMs m - startDelayMs m) / 1000) 0),
        stopped = False, endedFired = False \<rparr>) (audioBuffers m)"
  by (simp add: startAudioSources_def Let_def foldl_start_one_nodes foldl_start_one_other
      stopAudioSources_def clearEndEventTimeout_fields armEndEventTimeout_def)

lemma startAudioSources_sources:
  "audioSources (startAudioSources ctx m) =
     [length (nodes m) ..< length (nodes m) + length (audioBuffers m)]"
  by (simp add: startAudioSources_def Let_def foldl_start_one_sources foldl_start_one_other
      stopAudioSources_def clearEndEventTimeout_fields armEndEventTimeout_def length_fold_stop_source)


lemma play_nodes: "nodes (play ctx m) = nodes (startAudioSources ctx m)"
  and play_sources: "audioSources (play ctx m) = audioSources (startAudioSources ctx m)"
  by (simp_all add: play_def Let_def armEndEventTimeout_def)

lemma seek_fields:
  "m_isPaused (seek ctx p m)"
  "chartEndTimeMs (seek ctx p m) = chartEndTimeMs m"
  "lastSeekChartTimeMs (seek ctx p m) = p * chartEndTimeMs m"
proof -
  have e: "chartEndTimeMs (stopAudioSources (clearEndEventTimeout m)) = chartEndTimeMs m"
    by (rule chartEndTimeMs_cong) (simp_all add: stopAudioSources_def clearEndEventTimeout_fields)
  show "m_isPaused (seek ctx p m)" by (simp add: seek_def Let_def)
  show "chartEndTimeMs (seek ctx p m) = chartEndTimeMs m"
    by (rule chartEndTimeMs_cong)
       (simp_all add: seek_def Let_def stopAudioSources_def clearEndEventTimeout_fields)
  show "lastSeekChartTimeMs (seek ctx p m) = p * chartEndTimeMs m"
    by (simp add: seek_def Let_def e)
qed

lemma s_play_fields:
  "\<not> s_isPaused (s_play now s)"
  "s_chartEndTimeMs (s_play now s) = s_chartEndTimeMs s"
  "lastResumeClockTimeMs (s_play now s) = now"
  "lastResumeChartTimeMs (s_play now s) =
     (if lastResumeChartTimeMs s \<ge> s_chartEndTimeMs s - 2 then 0 else lastResumeChartTimeMs s)"
proof -
  show "\<not> s_isPaused (s_play now s)" by (simp add: s_play_def Let_def)
  show "s_chartEndTimeMs (s_play now s) = s_chartEndTimeMs s"
    by (rule s_chartEndTimeMs_cong) (simp_all add: s_play_def s_setTimeout_def Let_def)
  show "lastResumeClockTimeMs (s_play now s) = now"
    by (simp add: s_play_def s_setTimeout_def Let_def)
  show "lastResumeChartTimeMs (s_play now s) =
     (if lastResumeChartTimeMs s \<ge> s_chartEndTimeMs s - 2 then 0 else lastResumeChartTimeMs s)"
    by (simp add: s_play_def s_setTimeout_def Let_def)
qed

lemma s_seek_paused:
  assumes "s_isPaused s"
  shows "s_seek now p s = s\<lparr> lastResumeChartTimeMs := s_chartEndTimeMs s * p \<rparr>"
  using assms by (simp add: s_seek_def Let_def)

lemma s_seek_playing:
  assumes "\<not> s_isPaused s"
  shows "s_seek now p s = s_play now (s\<lparr> lastResumeChartTimeMs := s_chartEndTimeMs s * p \<rparr>)"
  using assms by (simp add: s_seek_def Let_def)

lemma s_chartEndTimeMs_upd [simp]:
  "s_chartEndTimeMs (s\<lparr> lastResumeChartTimeMs := x \<rparr>) = s_chartEndTimeMs s"
  by (simp add: s_chartEndTimeMs_def)

subsection \<open>Scheduling of the sources\<close>

text \<open>
  Claim C1. Let \<open>offsetSeconds = (lastSeekChartTimeMs - startDelayMs) / 1000\<close>. After
  \<open>play()\<close> the instance holds one source per decoded buffer, in the order of the buffers.
  If \<open>offsetSeconds \<ge> 0\<close> each was started with \<open>when\<close> equal to the device time and read
  offset \<open>offsetSeconds\<close>; if \<open>offsetSeconds < 0\<close> each was started with \<open>when\<close> equal to the
  device time plus \<open>|offsetSeconds|\<close> and read offset 0. Nothing is assumed about
  \<open>lastSeekChartTimeMs\<close> or the sign of \<open>startDelayMs\<close>.
\<close>

theorem play_schedules_sources:
  "map (\<lambda>i. (buffer (nodes (play ctx m) ! i), startArgs (nodes (play ctx m) ! i)))
       (audioSources (play ctx m))
   = map (\<lambda>b. (b, Some (let offsetSeconds = (lastSeekChartTimeMs m - startDelayMs m) / 1000
                         in if offsetSeconds \<ge> 0 then (currentTime ctx, offsetSeconds)
                            else (currentTime ctx + \<bar>offsetSeconds\<bar>, 0))))
       (audioBuffers m)"
proof -
  define off where "off = (lastSeekChartTimeMs m - startDelayMs m) / 1000"
  have args: "(currentTime ctx + \<bar>min off 0\<bar>, max off 0) =
      (if off \<ge> 0 then (currentTime ctx, off) else (currentTime ctx + \<bar>off\<bar>, 0))"
    by (simp add: min_def max_def)
  show ?thesis
    unfolding play_nodes play_sources startAudioSources_nodes startAudioSources_sources
      off_def[symmetric] Let_def args
    by (rule nth_equalityI) (simp_all add: nth_append length_fold_stop_source)
qed

text \<open>
  The two cases on a manager with two buffers and \<open>startDelayMs = -500\<close> at device time 7:
  after \<open>seek(0.5)\<close> of the 4000 ms chart the offset is 2.5 s; with \<open>startDelayMs = 800\<close> and
  chart time 0 the sources wait 0.8 s.
\<close>

theorem play_schedules_sources_witness:
  "map (\<lambda>i. startArgs (nodes (play \<lparr>currentTime = 7, baseLatency = 0, outputLatency = None\<rparr>
            (seek \<lparr>currentTime = 5, baseLatency = 0, outputLatency = None\<rparr> (1/2)
               (AudioManager_create [3, 4] (-500) 0))) ! i))
       (audioSources (play \<lparr>currentTime = 7, baseLatency = 0, outputLatency = None\<rparr>
            (seek \<lparr>currentTime = 5, baseLatency = 0, outputLatency = None\<rparr> (1/2)
               (AudioManager_create [3, 4] (-500) 0))))
     = [Some (7, 5/2), Some (7, 5/2)]
   \<and> map (\<lambda>i. startArgs (nodes (play \<lparr>currentTime = 7, baseLatency = 0, outputLatency = None\<rparr>
               (AudioManager_create [3, 4] 800 0)) ! i))
       (audioSources (play \<lparr>currentTime = 7, baseLatency = 0, outputLatency = None\<rparr>
               (AudioManager_create [3, 4] 800 0)))
     = [Some (39/5, 0), Some (39/5, 0)]"
proof -
  let ?c5 = "\<lparr>currentTime = 5, baseLatency = 0, outputLatency = None\<rparr>"
  let ?c7 = "\<lparr>currentTime = 7, baseLatency = 0, outputLatency = None\<rparr>"
  let ?m = "seek ?c5 (1/2) (AudioManager_create [3, 4] (-500) 0)"
  let ?n = "AudioManager_create [3, 4] 800 0"
  have create: "audioBuffers (AudioManager_create [3, 4] d 0) = [3, 4]"
    "startDelayMs (AudioManager_create [3, 4] d 0) = d"
    "audioLengthMs (AudioManager_create [3, 4] d 0) = 4000"
    "fallbackAudioLengthMs (AudioManager_create [3, 4] d 0) = 0"
    "lastSeekChartTimeMs (AudioManager_create [3, 4] d 0) = 0" for d
    by (simp_all add: AudioManager_create_def AudioManager_new_def decodeAudioFiles_def)
  have m: "audioBuffers ?m = [3, 4]" "startDelayMs ?m = -500" "lastSeekChartTimeMs ?m = 2000"
    by (simp_all add: seek_fields seek_def Let_def stopAudioSources_def
        clearEndEventTimeout_fields create chartEndTimeMs_def)
  have "map (\<lambda>x. snd x) (map (\<lambda>i. (buffer (nodes (play ?c7 ?m) ! i),
            startArgs (nodes (play ?c7 ?m) ! i))) (audioSources (play ?c7 ?m)))
        = [Some (7, 5/2), Some (7, 5/2)]"
    unfolding play_schedules_sources [of ?c7 ?m] by (simp add: m)
  moreover
  have "map (\<lambda>x. snd x) (map (\<lambda>i. (buffer (nodes (play ?c7 ?n) ! i),
            startArgs (nodes (play ?c7 ?n) ! i))) (audioSources (play ?c7 ?n)))
        = [Some (39/5, 0), Some (39/5, 0)]"
    unfolding play_schedules_sources [of ?c7 ?n] by (simp add: create)
  ultimately show ?thesis by (simp add: comp_def)
qed

subsection \<open>Seeking\<close>

text \<open>
  After \<open>AudioManager.seek(percent)\<close> the instance is paused and \<open>chartCurrentTimeMs\<close> is
  \<open>percent \<times> chartEndTimeMs\<close>, whatever the state before and whatever the device clock reads
  afterwards. The wall-clock manager does the same when it was paused.
\<close>

lemma play_chartEndTimeMs: "chartEndTimeMs (play ctx m) = chartEndTimeMs m"
proof (rule chartEndTimeMs_cong)
  have f: "startDelayMs (startAudioSources ctx m) = startDelayMs m"
    "audioLengthMs (startAudioSources ctx m) = audioLengthMs m"
    "fallbackAudioLengthMs (startAudioSources ctx m) = fallbackAudioLengthMs m"
    by (simp_all add: startAudioSources_def Let_def foldl_start_one_other
        stopAudioSources_def clearEndEventTimeout_fields armEndEventTimeout_def)
  show "startDelayMs (play ctx m) = startDelayMs m"
    by (simp add: play_def Let_def armEndEventTimeout_def f)
  show "audioLengthMs (play ctx m) = audioLengthMs m"
    by (simp add: play_def Let_def armEndEventTimeout_def f)
  show "fallbackAudioLengthMs (play ctx m) = fallbackAudioLengthMs m"
    by (simp add: play_def Let_def armEndEventTimeout_def f)
qed

lemma audio_seek_pauses_at_target:
  "m_isPaused (seek ctx p m) \<and>
   chartEndTimeMs (seek ctx p m) = chartEndTimeMs m \<and>
   chartCurrentTimeMs ctx' (seek ctx p m) = p * chartEndTimeMs m"
  by (simp add: chartCurrentTimeMs_def seek_fields)

lemma silent_seek_from_paused:
  assumes "s_isPaused s"
  shows "s_isPaused (s_seek now p s) \<and>
         s_chartEndTimeMs (s_seek now p s) = s_chartEndTimeMs s \<and>
         s_chartCurrentTimeMs now' (s_seek now p s) = p * s_chartEndTimeMs s"
  using assms by (simp add: s_seek_paused s_chartCurrentTimeMs_def mult.commute)

text \<open>
  Claim C4 says that \<open>seek(percent)\<close> leaves either manager paused at
  \<open>percent \<times> chartEndTimeMs\<close>, from Playing as from Paused. The wall-clock manager breaks it
  when it is playing. A 5000 ms chart: \<open>play()\<close> at clock time 0 arms timeout 0 for 5000;
  \<open>seek(0.1)\<close> at 4000 calls \<open>play()\<close>, which arms timeout 1 for 8500 and leaves timeout 0
  pending. After the seek the instance is not paused, and at 4500 its chart time is 1000,
  not 500. At 5000 timeout 0 fires: it pauses the instance at chart time 1500 and emits
  \<open>end\<close>. The audio-backed manager, given the same calls, is paused at 500.
\<close>

theorem silent_seek_keeps_playing:
  "\<not> s_isPaused (s_seek 4000 (1/10) (s_play 0 (SilentAudioManager_create 0 0 5000)))
   \<and> 1/10 * s_chartEndTimeMs (s_seek 4000 (1/10) (s_play 0 (SilentAudioManager_create 0 0 5000)))
       = 500
   \<and> s_chartCurrentTimeMs 4500
        (s_seek 4000 (1/10) (s_play 0 (SilentAudioManager_create 0 0 5000))) = 1000
   \<and> s_timers (s_seek 4000 (1/10) (s_play 0 (SilentAudioManager_create 0 0 5000)))
       = [(0, 5000), (1, 8500)]
   \<and> s_isPaused (s_timeout_fired 0 5000
        (s_seek 4000 (1/10) (s_play 0 (SilentAudioManager_create 0 0 5000))))
   \<and> s_chartCurrentTimeMs 5000 (s_timeout_fired 0 5000
        (s_seek 4000 (1/10) (s_play 0 (SilentAudioManager_create 0 0 5000)))) = 1500
   \<and> s_endEmitted (s_timeout_fired 0 5000
        (s_seek 4000 (1/10) (s_play 0 (SilentAudioManager_create 0 0 5000)))) = 1
   \<and> m_isPaused (seek \<lparr>currentTime = 4, baseLatency = 0, outputLatency = None\<rparr> (1/10)
        (play \<lparr>currentTime = 0, baseLatency = 0, outputLatency = None\<rparr>
           (AudioManager_create [5] 0 5000)))
   \<and> chartCurrentTimeMs \<lparr>currentTime = 9/2, baseLatency = 0, outputLatency = None\<rparr>
        (seek \<lparr>currentTime = 4, baseLatency = 0, outputLatency = None\<rparr> (1/10)
          (play \<lparr>currentTime = 0, baseLatency = 0, outputLatency = None\<rparr>
             (AudioManager_create [5] 0 5000))) = 500"
proof -
  let ?ctxa = "\<lparr>currentTime = 0, baseLatency = 0, outputLatency = None\<rparr>"
  let ?ctxb = "\<lparr>currentTime = 4, baseLatency = 0, outputLatency = None\<rparr>"
  let ?ctxc = "\<lparr>currentTime = 9/2, baseLatency = 0, outputLatency = None\<rparr>"
  define m where "m = s_seek 4000 (1/10) (s_play 0 (SilentAudioManager_create 0 0 5000))"
  have m: "m = \<lparr> s_timers = [(0, 5000), (1, 8500)], s_nextTimer = 2, s_endEmitted = 0,
                  s_endEventTimeout = Some 1, s_isPaused = False,
                  lastResumeChartTimeMs = 500, lastResumeClockTimeMs = 4000,
                  s_startDelayMs = 0, s_audioLengthMs = 5000 \<rparr>"
    unfolding m_def
    by (simp add: SilentAudioManager_create_def s_seek_def s_play_def s_setTimeout_def
        s_chartEndTimeMs_def)
  have fired: "s_timeout_fired 0 5000 m =
      \<lparr> s_timers = [], s_nextTimer = 2, s_endEmitted = 1,
        s_endEventTimeout = Some 1, s_isPaused = True,
        lastResumeChartTimeMs = 1500, lastResumeClockTimeMs = 4000,
        s_startDelayMs = 0, s_audioLengthMs = 5000 \<rparr>"
    unfolding m
    by (simp add: s_timeout_fired_def s_pause_def s_clearTimeout_def s_chartCurrentTimeMs_def)
  have e: "chartEndTimeMs (play ?ctxa (AudioManager_create [5] 0 5000)) = 5000"
    unfolding play_chartEndTimeMs
    by (simp add: AudioManager_create_def AudioManager_new_def decodeAudioFiles_def
        chartEndTimeMs_def)
  note a = audio_seek_pauses_at_target
    [of ?ctxb "1/10" "play ?ctxa (AudioManager_create [5] 0 5000)" ?ctxc]
  have "\<not> s_isPaused m" "1/10 * s_chartEndTimeMs m = 500" "s_chartCurrentTimeMs 4500 m = 1000"
    "s_timers m = [(0, 5000), (1, 8500)]"
    unfolding m by (simp_all add: s_chartEndTimeMs_def s_chartCurrentTimeMs_def)
  moreover have "s_isPaused (s_timeout_fired 0 5000 m)"
    "s_chartCurrentTimeMs 5000 (s_timeout_fired 0 5000 m) = 1500"
    "s_endEmitted (s_timeout_fired 0 5000 m) = 1"
    unfolding fired by (simp_all add: s_chartCurrentTimeMs_def)
  moreover from a e have "m_isPaused (seek ?ctxb (1/10) (play ?ctxa (AudioManager_create [5] 0 5000)))"
    "chartCurrentTimeMs ?ctxc (seek ?ctxb (1/10) (play ?ctxa (AudioManager_create [5] 0 5000))) = 500"
    by simp_all
  ultimately show ?thesis unfolding m_def by blast
qed

subsection \<open>The end time\<close>



subsection \<open>Rounding to binary64\<close>

lemma two_powi_pos [simp]: "0 < (2::real) powi k"
  by simp

lemma floor_log2_eq:
  assumes "2 powi k \<le> x" "x < 2 powi (k + 1)"
  shows "\<lfloor>log 2 x\<rfloor> = k"
proof -
  have pos: "0 < x" using assms(1) two_powi_pos [of k] by linarith
  have a: "(2::real) powr real_of_int k = 2 powi k"
    by (rule powr_real_of_int') simp_all
  have b: "(2::real) powr (real_of_int k + 1) = 2 powi (k + 1)"
    using powr_real_of_int' [of 2 "k + 1"] by simp
  show ?thesis
    using floor_log_eq_powr_iff [of x 2 k] pos assms by (simp add: a b)
qed


lemma ulp_exponent_normal:
  assumes "2 powi k \<le> \<bar>x\<bar>" "\<bar>x\<bar> < 2 powi (k + 1)" "-1022 \<le> k"
  shows "ulp_exponent x = k - 52"
  unfolding ulp_exponent_def floor_log2_eq [OF assms(1,2)] using assms(3) by simp


lemma round_half_even_near:
  assumes "of_int M - 1/2 < z" "z < of_int M + 1/2"
  shows "round_half_even z = M"
proof (cases "of_int M \<le> z")
  case True
  with assms(2) have "\<lfloor>z\<rfloor> = M" by (intro floor_unique) simp_all
  with assms(2) show ?thesis by (simp add: round_half_even_def)
next
  case False
  with assms(1) have f: "\<lfloor>z\<rfloor> = M - 1" by (intro floor_unique) simp_all
  from assms(1) have "z - of_int (M - 1) > 1/2" by simp
  with f show ?thesis by (simp add: round_half_even_def)
qed

lemma round_half_even_of_int [simp]: "round_half_even (of_int M) = M"
  by (rule round_half_even_near) simp_all


lemma round_binary64_exact:
  assumes "2 powi k \<le> \<bar>x\<bar>" "\<bar>x\<bar> < 2 powi (k + 1)" "-1022 \<le> k"
    and "x = of_int M * 2 powi (k - 52)"
  shows "round_binary64 x = x"
proof -
  have nz: "x \<noteq> 0"
  proof
    assume "x = 0"
    with assms(1) have "(2::real) powi k \<le> 0" by simp
    moreover have "0 < (2::real) powi k" by simp
    ultimately show False by linarith
  qed
  have "x / 2 powi (k - 52) = of_int M" using assms(4) by simp
  then show ?thesis
    unfolding round_binary64_def ulp_exponent_normal [OF assms(1,2,3)]
    using nz assms(4) by simp
qed

lemma is_binary64_0 [simp]: "is_binary64 0"
  by (simp add: is_binary64_def round_binary64_def)

lemma is_binary64_two_powi:
  assumes "-1022 \<le> k" "k < 1024"
  shows "is_binary64 (2 powi k)"
proof -
  have "(2::real) powi k = of_int (2 ^ 52) * 2 powi (k - 52)"
    by (simp add: power_int_diff)
  moreover have "(2::real) powi k < 2 powi (k + 1)"
    by (intro power_int_strict_increasing) simp_all
  ultimately have "round_binary64 (2 powi k) = 2 powi k"
    using assms(1) by (intro round_binary64_exact [where k = k and M = "2 ^ 52"]) simp_all
  moreover have "(2::real) powi k < 2 powi 1024"
    using assms(2) by (intro power_int_strict_increasing) simp_all
  ultimately show ?thesis by (simp add: is_binary64_def)
qed

lemma is_binary64_1 [simp]: "is_binary64 1"
  using is_binary64_two_powi [of 0] by simp


subsection \<open>The root of a rounded square\<close>




subsection \<open>Volume\<close>



lemma is_binary64_clamp:
  assumes "is_binary64 x"
  shows "is_binary64 (max 0 (min 1 x))"
  using assms by (simp add: max_def min_def)









subsection \<open>Restart at the end in the wall-clock manager\<close>

text \<open>
  Claim C10. \<open>SilentAudioManager.play()\<close> with a stored chart time of at least
  \<open>chartEndTimeMs - 2\<close> sets the chart time to 0 and plays from there; with a smaller stored
  chart time it plays from exactly that time. Afterwards the instance is not paused and its
  chart time advances with the wall clock.
\<close>

theorem silent_play_restarts_near_end:
  "(lastResumeChartTimeMs m \<ge> s_chartEndTimeMs m - 2 \<longrightarrow>
      lastResumeChartTimeMs (s_play now m) = 0 \<and> s_chartCurrentTimeMs now (s_play now m) = 0)
   \<and> (lastResumeChartTimeMs m < s_chartEndTimeMs m - 2 \<longrightarrow>
      lastResumeChartTimeMs (s_play now m) = lastResumeChartTimeMs m \<and>
      s_chartCurrentTimeMs now (s_play now m) = lastResumeChartTimeMs m)
   \<and> \<not> s_isPaused (s_play now m)
   \<and> s_chartCurrentTimeMs later (s_play now m) =
        lastResumeChartTimeMs (s_play now m) + (later - now)"
  by (simp add: s_play_def s_setTimeout_def s_chartCurrentTimeMs_def s_chartEndTimeMs_def Let_def)

text \<open>A 5000 ms chart: \<open>play()\<close> at 2500 stays at 2500, \<open>play()\<close> at 4999 restarts at 0.\<close>

theorem silent_play_restarts_near_end_witness:
  "lastResumeChartTimeMs (s_seek 0 (1/2) (SilentAudioManager_create 0 0 5000))
     < s_chartEndTimeMs (s_seek 0 (1/2) (SilentAudioManager_create 0 0 5000)) - 2
   \<and> s_chartCurrentTimeMs 7 (s_play 7 (s_seek 0 (1/2) (SilentAudioManager_create 0 0 5000))) = 2500
   \<and> lastResumeChartTimeMs (s_seek 0 (4999/5000) (SilentAudioManager_create 0 0 5000))
     \<ge> s_chartEndTimeMs (s_seek 0 (4999/5000) (SilentAudioManager_create 0 0 5000)) - 2
   \<and> s_chartCurrentTimeMs 7 (s_play 7 (s_seek 0 (4999/5000) (SilentAudioManager_create 0 0 5000))) = 0"
  using silent_play_restarts_near_end [of "s_seek 0 (1/2) (SilentAudioManager_create 0 0 5000)" 7 7]
        silent_play_restarts_near_end [of "s_seek 0 (4999/5000) (SilentAudioManager_create 0 0 5000)" 7 7]
  by (simp add: SilentAudioManager_create_def s_seek_def s_chartEndTimeMs_def)

section \<open>End of playback\<close>

subsection \<open>Starting a session\<close>

lemma nth_fold_stop_source:
  "j < length ns \<Longrightarrow>
   fold stop_source is ns ! j =
     (if j \<in> set is then (ns ! j)\<lparr> onended := None, stopped := True \<rparr> else ns ! j)"
proof (induction "is" arbitrary: ns)
  case Nil
  then show ?case by simp
next
  case (Cons i "is")
  have len: "length (stop_source i ns) = length ns" by (simp add: stop_source_def)
  have step: "stop_source i ns ! j =
      (if j = i then (ns ! j)\<lparr> onended := None, stopped := True \<rparr> else ns ! j)"
    using Cons.prems by (simp add: stop_source_def)
  from Cons.IH [of "stop_source i ns"] Cons.prems len
  have "fold stop_source is (stop_source i ns) ! j =
     (if j \<in> set is then (stop_source i ns ! j)\<lparr> onended := None, stopped := True \<rparr>
      else stop_source i ns ! j)" by simp
  with step show ?case by auto
qed

lemma stopAudioSources_fields:
  "audioSources (stopAudioSources m) = []"
  "audioBuffers (stopAudioSources m) = audioBuffers m"
  "m_isPaused (stopAudioSources m) = m_isPaused m"
  "endEmitted (stopAudioSources m) = endEmitted m"
  "endedCounts (stopAudioSources m) = endedCounts m"
  "timerPending (stopAudioSources m) = timerPending m"
  "endEventTimeout (stopAudioSources m) = endEventTimeout m"
  "length (nodes (stopAudioSources m)) = length (nodes m)"
  by (simp_all add: stopAudioSources_def length_fold_stop_source)

lemma stopAudioSources_detaches:
  assumes "handlers_tracked m"
  shows "\<forall>n \<in> set (nodes (stopAudioSources m)). onended n = None"
proof
  fix n assume "n \<in> set (nodes (stopAudioSources m))"
  then obtain j where j: "j < length (nodes m)" and n: "n = nodes (stopAudioSources m) ! j"
    by (auto simp: in_set_conv_nth stopAudioSources_fields)
  from j have "nodes (stopAudioSources m) ! j =
      (if j \<in> set (audioSources m) then (nodes m ! j)\<lparr> onended := None, stopped := True \<rparr>
       else nodes m ! j)"
    by (simp add: stopAudioSources_def nth_fold_stop_source)
  moreover from assms j have "j \<notin> set (audioSources m) \<Longrightarrow> onended (nodes m ! j) = None"
    unfolding handlers_tracked_def by blast
  ultimately show "onended n = None" unfolding n by auto
qed

lemma startAudioSources_fields:
  "audioBuffers (startAudioSources ctx m) = audioBuffers m"
  "m_isPaused (startAudioSources ctx m) = m_isPaused m"
  "endEmitted (startAudioSources ctx m) = endEmitted m"
  "endedCounts (startAudioSources ctx m) = endedCounts m @ [0]"
  by (simp_all add: startAudioSources_def Let_def foldl_start_one_other
      stopAudioSources_def clearEndEventTimeout_fields armEndEventTimeout_def)

lemma startAudioSources_timer:
  "audioBuffers m \<noteq> [] \<Longrightarrow> timerPending (startAudioSources ctx m) = timerPending m"
  by (simp add: startAudioSources_def Let_def foldl_start_one_other stopAudioSources_def)

lemma play_fields:
  "audioBuffers (play ctx m) = audioBuffers m"
  "\<not> m_isPaused (play ctx m)"
  "endEmitted (play ctx m) = endEmitted m"
  "endedCounts (play ctx m) = endedCounts m @ [0]"
  by (simp_all add: play_def Let_def startAudioSources_fields armEndEventTimeout_def)

lemma play_timer:
  "audioBuffers m \<noteq> [] \<Longrightarrow> timerPending (play ctx m) = timerPending m"
  by (simp add: play_def Let_def startAudioSources_fields startAudioSources_timer)

lemma play_node_old:
  assumes "handlers_tracked m" "j < length (nodes m)"
  shows "onended (nodes (play ctx m) ! j) = None"
proof -
  from assms(2) have "nodes (play ctx m) ! j = nodes (stopAudioSources m) ! j"
    by (simp add: play_nodes startAudioSources_nodes nth_append length_fold_stop_source
        stopAudioSources_def)
  moreover from assms(2) have "nodes (stopAudioSources m) ! j \<in> set (nodes (stopAudioSources m))"
    by (simp add: stopAudioSources_fields)
  ultimately show ?thesis using stopAudioSources_detaches [OF assms(1)] by simp
qed

lemma play_node_new:
  assumes "length (nodes m) \<le> j" "j < length (nodes m) + length (audioBuffers m)"
  shows "onended (nodes (play ctx m) ! j) = Some (length (endedCounts m))"
    and "startArgs (nodes (play ctx m) ! j) \<noteq> None"
    and "\<not> endedFired (nodes (play ctx m) ! j)"
  using assms
  by (simp_all add: play_nodes startAudioSources_nodes nth_append length_fold_stop_source)

lemma play_length_nodes:
  "length (nodes (play ctx m)) = length (nodes m) + length (audioBuffers m)"
  by (simp add: play_nodes startAudioSources_nodes length_fold_stop_source)

lemma play_audioSources:
  "audioSources (play ctx m) = [length (nodes m) ..< length (nodes m) + length (audioBuffers m)]"
  by (simp add: play_sources startAudioSources_sources)

lemma play_session_inv:
  assumes G: "handlers_tracked m" and B: "audioBuffers m \<noteq> []"
  shows "session_inv (endEmitted m) (length (endedCounts m)) {} (play ctx m)"
proof -
  from G B have T: "\<not> timerPending m" unfolding handlers_tracked_def by blast
  have S: "audioSources (play ctx m) =
      [length (nodes m) ..< length (nodes m) + length (audioBuffers m)]"
    by (rule play_audioSources)
  have ne: "audioSources (play ctx m) \<noteq> []" unfolding S using B by simp
  have new: "i < length (nodes (play ctx m)) \<and>
        onended (nodes (play ctx m) ! i) = Some (length (endedCounts m)) \<and>
        startArgs (nodes (play ctx m) ! i) \<noteq> None \<and>
        (endedFired (nodes (play ctx m) ! i) \<longleftrightarrow> i \<in> {})"
    if "i \<in> set (audioSources (play ctx m))" for i
    using that play_node_new [of m i ctx] unfolding S by (simp add: play_length_nodes)
  have old: "onended (nodes (play ctx m) ! i) = None"
    if "i < length (nodes (play ctx m))" "i \<notin> set (audioSources (play ctx m))" for i
  proof -
    from that have "i < length (nodes m)" unfolding S by (simp add: play_length_nodes)
    with G show ?thesis by (rule play_node_old)
  qed
  have sub: "\<not> set (audioSources (play ctx m)) \<subseteq> {}" using ne by simp
  show ?thesis
    unfolding session_inv_def
    using ne new old sub T B
    by (simp add: play_fields play_timer nth_append) (simp add: S)
qed

subsection \<open>Completions during a session\<close>

lemma session_invD:
  assumes "session_inv e0 k F m"
  shows "distinct (audioSources m)" "audioSources m \<noteq> []"
    "length (audioSources m) = length (audioBuffers m)"
    "\<And>i. i \<in> set (audioSources m) \<Longrightarrow>
        i < length (nodes m) \<and> onended (nodes m ! i) = Some k \<and>
        startArgs (nodes m ! i) \<noteq> None \<and> (endedFired (nodes m ! i) \<longleftrightarrow> i \<in> F)"
    "\<And>i. i < length (nodes m) \<Longrightarrow> i \<notin> set (audioSources m) \<Longrightarrow> onended (nodes m ! i) = None"
    "\<not> m_isPaused m" "\<not> timerPending m" "k < length (endedCounts m)"
    "endedCounts m ! k = card (set (audioSources m) \<inter> F)"
    "endEmitted m = e0 + (if set (audioSources m) \<subseteq> F then 1 else 0)"
  using assms unfolding session_inv_def by blast+

lemma session_inv_insert_outside:
  assumes J: "session_inv e0 k F m" and i: "i \<notin> set (audioSources m) \<or> i \<in> F"
  shows "session_inv e0 k (insert i F) m"
proof -
  have a: "set (audioSources m) \<inter> insert i F = set (audioSources m) \<inter> F"
    using i by auto
  have b: "set (audioSources m) \<subseteq> insert i F \<longleftrightarrow> set (audioSources m) \<subseteq> F"
    using i by auto
  have c: "j \<in> insert i F \<longleftrightarrow> j \<in> F" if "j \<in> set (audioSources m)" for j
    using i that by auto
  show ?thesis
    unfolding session_inv_def a b
    using session_invD [OF J] c by simp
qed

lemma session_inv_mark_other:
  assumes J: "session_inv e0 k F m" and i: "i \<notin> set (audioSources m)" "i < length (nodes m)"
  shows "session_inv e0 k F (m\<lparr> nodes := (nodes m)[i := (nodes m ! i)\<lparr> endedFired := True \<rparr>] \<rparr>)"
proof -
  have same: "(nodes m)[i := (nodes m ! i)\<lparr> endedFired := True \<rparr>] ! j = nodes m ! j"
    if "j \<in> set (audioSources m)" for j
    using that i by (auto simp: nth_list_update)
  have other: "onended ((nodes m)[i := (nodes m ! i)\<lparr> endedFired := True \<rparr>] ! j) = onended (nodes m ! j)"
    if "j < length (nodes m)" for j
    using that by (cases "j = i") (simp_all add: nth_list_update)
  show ?thesis
    unfolding session_inv_def
    using session_invD [OF J] same other by simp
qed

lemma card_inter_insert:
  assumes "finite S" "i \<in> S" "i \<notin> F"
  shows "card (S \<inter> insert i F) = Suc (card (S \<inter> F))"
proof -
  have "S \<inter> insert i F = insert i (S \<inter> F)" using assms by auto
  moreover have "i \<notin> S \<inter> F" using assms by simp
  ultimately show ?thesis using assms(1) by simp
qed

lemma card_inter_full:
  assumes "finite S"
  shows "card (S \<inter> F) = card S \<longleftrightarrow> S \<subseteq> F"
proof
  assume "card (S \<inter> F) = card S"
  with assms have "S \<inter> F = S" by (intro card_subset_eq) auto
  then show "S \<subseteq> F" by blast
next
  assume "S \<subseteq> F"
  then have "S \<inter> F = S" by blast
  then show "card (S \<inter> F) = card S" by simp
qed

lemma session_inv_fire_own:
  assumes J: "session_inv e0 k F m" and i: "i \<in> set (audioSources m)" "i \<notin> F"
  shows "session_inv e0 k (insert i F)
     (onended_handler k (m\<lparr> nodes := (nodes m)[i := (nodes m ! i)\<lparr> endedFired := True \<rparr>] \<rparr>))"
proof -
  note D = session_invD [OF J]
  let ?S = "set (audioSources m)"
  let ?ns = "(nodes m)[i := (nodes m ! i)\<lparr> endedFired := True \<rparr>]"
  let ?m1 = "m\<lparr> nodes := ?ns \<rparr>"
  from D(4) [OF i(1)] have il: "i < length (nodes m)" by simp
  have cardS: "card ?S = length (audioBuffers m)"
    using D(1) D(3) by (simp add: distinct_card)
  have cnt: "card (?S \<inter> insert i F) = Suc (card (?S \<inter> F))"
    using i by (intro card_inter_insert) simp_all
  have notall: "\<not> ?S \<subseteq> F" using i by blast
  have full: "Suc (card (?S \<inter> F)) = length (audioBuffers m) \<longleftrightarrow> ?S \<subseteq> insert i F"
    using card_inter_full [of ?S "insert i F"] cnt cardS by simp
  define m2 where "m2 = onended_handler k ?m1"
  have f: "nodes m2 = ?ns" "audioSources m2 = audioSources m" "audioBuffers m2 = audioBuffers m"
    "m_isPaused m2 = m_isPaused m" "timerPending m2 = timerPending m"
    "length (endedCounts m2) = length (endedCounts m)"
    "endedCounts m2 ! k = Suc (card (?S \<inter> F))"
    "endEmitted m2 = e0 + (if ?S \<subseteq> insert i F then 1 else 0)"
    unfolding m2_def onended_handler_def Let_def
    using D(6,8,9,10) notall full by simp_all
  have own: "j < length ?ns \<and> onended (?ns ! j) = Some k \<and>
        startArgs (?ns ! j) \<noteq> None \<and> (endedFired (?ns ! j) \<longleftrightarrow> j \<in> insert i F)"
    if "j \<in> ?S" for j
    using D(4) [OF that] il by (cases "j = i") (simp_all add: nth_list_update)
  have other: "onended (?ns ! j) = None" if "j < length ?ns" "j \<notin> ?S" for j
    using D(5) [of j] that i(1) by (cases "j = i") (simp_all add: nth_list_update)
  show ?thesis
    unfolding m2_def [symmetric] session_inv_def f cnt
    using D(1,2,3,6,7,8) own other by simp
qed

lemma dispatch_ended_session_inv:
  assumes J: "session_inv e0 k F m"
  shows "session_inv e0 k (insert i F) (dispatch_ended i m)"
proof (cases "i < length (nodes m) \<and> startArgs (nodes m ! i) \<noteq> None \<and>
              \<not> endedFired (nodes m ! i)")
  case False
  then have same: "dispatch_ended i m = m" unfolding dispatch_ended_def by (simp only: if_False)
  have "i \<notin> set (audioSources m) \<or> i \<in> F"
    using session_invD(4) [OF J, of i] False by blast
  with J show ?thesis unfolding same by (rule session_inv_insert_outside)
next
  case True
  show ?thesis
  proof (cases "i \<in> set (audioSources m)")
    case False
    with True session_invD(5) [OF J, of i] have "onended (nodes m ! i) = None" by simp
    with True have step: "dispatch_ended i m =
        m\<lparr> nodes := (nodes m)[i := (nodes m ! i)\<lparr> endedFired := True \<rparr>] \<rparr>"
      by (simp add: dispatch_ended_def)
    have "session_inv e0 k F (dispatch_ended i m)"
      unfolding step using J False True by (intro session_inv_mark_other) simp_all
    moreover have "i \<notin> set (audioSources (dispatch_ended i m))"
      unfolding step using False by simp
    ultimately show ?thesis by (intro session_inv_insert_outside) simp_all
  next
    case mem: True
    with True session_invD(4) [OF J mem] have h: "onended (nodes m ! i) = Some k" "i \<notin> F"
      by simp_all
    with True have step: "dispatch_ended i m =
        onended_handler k (m\<lparr> nodes := (nodes m)[i := (nodes m ! i)\<lparr> endedFired := True \<rparr>] \<rparr>)"
      by (simp add: dispatch_ended_def)
    show ?thesis unfolding step using J mem h(2) by (rule session_inv_fire_own)
  qed
qed

lemma timer_fired_session_inv:
  "session_inv e0 k F m \<Longrightarrow> timer_fired m = m"
  by (simp add: timer_fired_def session_inv_def)

subsection \<open>After a stop\<close>

lemma handlers_tracked_cong:
  assumes "handlers_tracked m" "nodes m' = nodes m" "audioSources m' = audioSources m"
    "audioBuffers m' = audioBuffers m" "timerPending m' \<longrightarrow> timerPending m"
  shows "handlers_tracked m'"
  using assms unfolding handlers_tracked_def by auto

lemma session_inv_tracked:
  assumes "session_inv e0 k F m"
  shows "handlers_tracked m"
  unfolding handlers_tracked_def
proof (intro conjI ballI allI impI)
  note D = session_invD [OF assms]
  show "i < length (nodes m)" if "i \<in> set (audioSources m)" for i
    using D(4) [OF that] by simp
  show "i \<in> set (audioSources m)"
    if "i < length (nodes m)" "onended (nodes m ! i) \<noteq> None" for i
    using D(5) [OF that(1)] that(2) by blast
  show "\<not> timerPending m" by (rule D(7))
qed

lemma all_detached_tracked: "all_detached m \<Longrightarrow> handlers_tracked m"
  unfolding all_detached_def handlers_tracked_def by auto

lemma pause_fields:
  "audioBuffers (pause ctx m) = audioBuffers m"
  "endEmitted (pause ctx m) = endEmitted m"
  "audioSources (pause ctx m) = []"
  "timerPending (pause ctx m) = (timerPending m \<and> endEventTimeout m = None)"
  by (simp_all add: pause_def Let_def stopAudioSources_fields clearEndEventTimeout_fields)

lemma seek_fields':
  "audioBuffers (seek ctx p m) = audioBuffers m"
  "endEmitted (seek ctx p m) = endEmitted m"
  "audioSources (seek ctx p m) = []"
  "timerPending (seek ctx p m) = (timerPending m \<and> endEventTimeout m = None)"
  by (simp_all add: seek_def Let_def stopAudioSources_fields clearEndEventTimeout_fields)

lemma pause_nodes:
  "nodes (pause ctx m) = nodes (stopAudioSources m)"
  by (simp add: pause_def Let_def stopAudioSources_def clearEndEventTimeout_fields)

lemma seek_nodes:
  "nodes (seek ctx p m) = nodes (stopAudioSources m)"
  by (simp add: seek_def Let_def stopAudioSources_def clearEndEventTimeout_fields)

lemma pause_detached:
  assumes "handlers_tracked m" "\<not> timerPending m"
  shows "all_detached (pause ctx m)"
  unfolding all_detached_def pause_nodes
  using stopAudioSources_detaches [OF assms(1)] assms(2) by (simp add: pause_fields)

lemma seek_detached:
  assumes "handlers_tracked m" "\<not> timerPending m"
  shows "all_detached (seek ctx p m)"
  unfolding all_detached_def seek_nodes
  using stopAudioSources_detaches [OF assms(1)] assms(2) by (simp add: seek_fields')

lemma dispatch_ended_detached:
  assumes "all_detached m"
  shows "all_detached (dispatch_ended i m) \<and> endEmitted (dispatch_ended i m) = endEmitted m"
proof (cases "i < length (nodes m) \<and> startArgs (nodes m ! i) \<noteq> None \<and>
              \<not> endedFired (nodes m ! i)")
  case False
  then have "dispatch_ended i m = m" unfolding dispatch_ended_def by (simp only: if_False)
  with assms show ?thesis by simp
next
  case True
  with assms have "onended (nodes m ! i) = None" unfolding all_detached_def by simp
  with True have step: "dispatch_ended i m =
        m\<lparr> nodes := (nodes m)[i := (nodes m ! i)\<lparr> endedFired := True \<rparr>] \<rparr>"
    by (simp add: dispatch_ended_def)
  have "onended n = None"
    if "n \<in> set ((nodes m)[i := (nodes m ! i)\<lparr> endedFired := True \<rparr>])" for n
  proof -
    from that have "n \<in> insert ((nodes m ! i)\<lparr> endedFired := True \<rparr>) (set (nodes m))"
      using set_update_subset_insert by fast
    with assms True show ?thesis unfolding all_detached_def by auto
  qed
  with assms show ?thesis unfolding step all_detached_def by simp
qed

lemma am_step_detached:
  assumes "all_detached m" "\<not> is_Play e"
  shows "all_detached (am_step e m) \<and> endEmitted (am_step e m) = endEmitted m"
proof (cases e)
  case (Play ctx)
  with assms(2) show ?thesis by simp
next
  case (Pause ctx)
  from assms(1) have "\<not> timerPending m" unfolding all_detached_def by simp
  with all_detached_tracked [OF assms(1)] show ?thesis
    unfolding Pause by (simp add: pause_detached pause_fields)
next
  case (Seek ctx p)
  from assms(1) have "\<not> timerPending m" unfolding all_detached_def by simp
  with all_detached_tracked [OF assms(1)] show ?thesis
    unfolding Seek by (simp add: seek_detached seek_fields')
next
  case (Ended i)
  with dispatch_ended_detached [OF assms(1)] show ?thesis by simp
next
  case TimerFired
  from assms(1) have "timer_fired m = m" unfolding all_detached_def timer_fired_def by simp
  with assms(1) show ?thesis unfolding TimerFired by simp
qed

lemma am_run_simps [simp]:
  "am_run [] m = m" "am_run (e # evs) m = am_run evs (am_step e m)"
  by (simp_all add: am_run_def)

lemma dispatch_ended_sources [simp]:
  "audioSources (dispatch_ended i m) = audioSources m"
proof (cases "i < length (nodes m) \<and> startArgs (nodes m ! i) \<noteq> None \<and>
              \<not> endedFired (nodes m ! i)")
  case False
  then have "dispatch_ended i m = m" unfolding dispatch_ended_def by (simp only: if_False)
  then show ?thesis by simp
next
  case True
  then show ?thesis
    by (cases "onended (nodes m ! i)") (simp_all add: dispatch_ended_def onended_handler_def Let_def)
qed

lemma am_run_detached:
  assumes "all_detached m" "list_all (\<lambda>e. \<not> is_Play e) evs"
  shows "endEmitted (am_run evs m) = endEmitted m"
  using assms
proof (induction evs arbitrary: m)
  case Nil
  then show ?case by simp
next
  case (Cons e evs)
  from Cons.prems have e: "\<not> is_Play e" and rest: "list_all (\<lambda>e. \<not> is_Play e) evs"
    by simp_all
  note st = am_step_detached [OF Cons.prems(1) e]
  from Cons.IH [OF st [THEN conjunct1] rest] st [THEN conjunct2]
  show ?case by simp
qed

lemma am_run_session:
  assumes "session_inv e0 k F m" "list_all (\<lambda>e. \<not> is_Play e) evs"
  shows "endEmitted (am_run evs m) =
     e0 + (if set (audioSources m) \<subseteq> F \<union> ended_before_stop evs then 1 else 0)"
  using assms
proof (induction evs arbitrary: m F)
  case Nil
  from session_invD(10) [OF Nil(1)] show ?case by simp
next
  case (Cons e evs)
  from Cons.prems have e: "\<not> is_Play e" and rest: "list_all (\<lambda>e. \<not> is_Play e) evs"
    by simp_all
  note J = Cons.prems(1)
  show ?case
  proof (cases e)
    case (Play ctx)
    with e show ?thesis by simp
  next
    case (Ended i)
    note J' = dispatch_ended_session_inv [OF J, of i]
    have "endEmitted (am_run evs (dispatch_ended i m)) =
       e0 + (if set (audioSources m) \<subseteq> insert i F \<union> ended_before_stop evs then 1 else 0)"
      using Cons.IH [OF J' rest] by simp
    then show ?thesis unfolding Ended by simp
  next
    case TimerFired
    have "endEmitted (am_run evs m) =
       e0 + (if set (audioSources m) \<subseteq> F \<union> ended_before_stop evs then 1 else 0)"
      using Cons.IH [OF J rest] .
    then show ?thesis unfolding TimerFired by (simp add: timer_fired_session_inv [OF J])
  next
    case (Pause ctx)
    note D = pause_detached [OF session_inv_tracked [OF J] session_invD(7) [OF J], of ctx]
    have "endEmitted (am_run evs (pause ctx m)) = endEmitted m"
      using am_run_detached [OF D rest] by (simp add: pause_fields)
    with session_invD(10) [OF J] show ?thesis unfolding Pause by simp
  next
    case (Seek ctx p)
    note D = seek_detached [OF session_inv_tracked [OF J] session_invD(7) [OF J], of ctx p]
    have "endEmitted (am_run evs (seek ctx p m)) = endEmitted m"
      using am_run_detached [OF D rest] by (simp add: seek_fields')
    with session_invD(10) [OF J] show ?thesis unfolding Seek by simp
  qed
qed

subsection \<open>Every reachable state tracks its handlers\<close>

lemma dispatch_ended_fields:
  "audioBuffers (dispatch_ended i m) = audioBuffers m"
  "timerPending (dispatch_ended i m) = timerPending m"
  "length (nodes (dispatch_ended i m)) = length (nodes m)"
  "j < length (nodes m) \<Longrightarrow> onended (nodes (dispatch_ended i m) ! j) = onended (nodes m ! j)"
proof -
  consider (skip) "dispatch_ended i m = m"
    | (plain) "dispatch_ended i m =
         m\<lparr> nodes := (nodes m)[i := (nodes m ! i)\<lparr> endedFired := True \<rparr>] \<rparr>"
    | (handler) k where "dispatch_ended i m =
         onended_handler k (m\<lparr> nodes := (nodes m)[i := (nodes m ! i)\<lparr> endedFired := True \<rparr>] \<rparr>)"
  proof (cases "i < length (nodes m) \<and> startArgs (nodes m ! i) \<noteq> None \<and>
              \<not> endedFired (nodes m ! i)")
    case False
    then have "dispatch_ended i m = m" unfolding dispatch_ended_def by (simp only: if_False)
    then show ?thesis by (rule skip)
  next
    case True
    then show ?thesis
      by (cases "onended (nodes m ! i)") (auto simp: dispatch_ended_def intro: plain handler)
  qed
  note cases = this
  have upd: "onended ((nodes m)[i := (nodes m ! i)\<lparr> endedFired := True \<rparr>] ! j) = onended (nodes m ! j)"
    if "j < length (nodes m)"
    using that by (cases "j = i") (simp_all add: nth_list_update)
  show "audioBuffers (dispatch_ended i m) = audioBuffers m"
    by (rule cases) (simp_all add: onended_handler_def Let_def)
  show "timerPending (dispatch_ended i m) = timerPending m"
    by (rule cases) (simp_all add: onended_handler_def Let_def)
  show "length (nodes (dispatch_ended i m)) = length (nodes m)"
    by (rule cases) (simp_all add: onended_handler_def Let_def)
  show "onended (nodes (dispatch_ended i m) ! j) = onended (nodes m ! j)" if "j < length (nodes m)"
    using upd [OF that] by (rule_tac cases) (simp_all add: onended_handler_def Let_def)
qed

lemma dispatch_ended_tracked:
  assumes "handlers_tracked m"
  shows "handlers_tracked (dispatch_ended i m)"
  using assms unfolding handlers_tracked_def
  by (simp add: dispatch_ended_fields)

lemma timer_fired_tracked:
  assumes "handlers_tracked m"
  shows "handlers_tracked (timer_fired m)"
  using assms unfolding handlers_tracked_def timer_fired_def by simp

lemma pause_tracked:
  assumes "handlers_tracked m"
  shows "handlers_tracked (pause ctx m)"
  unfolding handlers_tracked_def pause_nodes
  using stopAudioSources_detaches [OF assms] assms
  by (auto simp: pause_fields handlers_tracked_def stopAudioSources_fields)

lemma seek_tracked:
  assumes "handlers_tracked m"
  shows "handlers_tracked (seek ctx p m)"
  unfolding handlers_tracked_def seek_nodes
  using stopAudioSources_detaches [OF assms] assms
  by (auto simp: seek_fields' handlers_tracked_def stopAudioSources_fields)

lemma play_tracked:
  assumes G: "handlers_tracked m"
  shows "handlers_tracked (play ctx m)"
proof (cases "audioBuffers m = []")
  case False
  from play_session_inv [OF G False] show ?thesis by (rule session_inv_tracked)
next
  case True
  have "onended (nodes (play ctx m) ! i) = None" if "i < length (nodes (play ctx m))" for i
  proof -
    from that True have "i < length (nodes m)" by (simp add: play_length_nodes)
    with G show ?thesis by (rule play_node_old)
  qed
  with True show ?thesis
    unfolding handlers_tracked_def by (simp add: play_audioSources play_fields)
qed

lemma am_step_tracked:
  assumes "handlers_tracked m"
  shows "handlers_tracked (am_step e m)"
  using assms
  by (cases e)
     (simp_all add: play_tracked pause_tracked seek_tracked dispatch_ended_tracked
        timer_fired_tracked)

lemma am_step_buffers: "audioBuffers (am_step e m) = audioBuffers m"
  by (cases e)
     (simp_all add: play_fields pause_fields seek_fields' dispatch_ended_fields timer_fired_def)

lemma am_run_tracked:
  assumes "handlers_tracked m"
  shows "handlers_tracked (am_run evs m) \<and> audioBuffers (am_run evs m) = audioBuffers m"
  using assms
proof (induction evs arbitrary: m)
  case Nil
  then show ?case by simp
next
  case (Cons e evs)
  from Cons.IH [OF am_step_tracked [OF Cons.prems, of e]] show ?case
    by (simp add: am_step_buffers)
qed

lemma create_tracked:
  "handlers_tracked (AudioManager_create durations startDelay fallbackLength)"
  "audioBuffers (AudioManager_create durations startDelay fallbackLength) = durations"
  by (simp_all add: handlers_tracked_def AudioManager_create_def AudioManager_new_def
      decodeAudioFiles_def Let_def)

subsection \<open>The end notification\<close>

text \<open>
  Claim C6. Take an instance created with at least one decoded buffer, after any run \<open>hist\<close>
  of calls and callbacks. \<open>play()\<close> itself emits nothing. In a run \<open>evs\<close> of \<open>pause\<close>, \<open>seek\<close>,
  \<open>ended\<close> events and timer callbacks that follows the \<open>play()\<close>, \<open>end\<close> is emitted exactly
  once if every source started by that \<open>play()\<close> has its \<open>ended\<close> event before the first
  \<open>pause\<close> or \<open>seek\<close> of the run, and not at all otherwise. A run that follows a \<open>pause()\<close> or
  a \<open>seek()\<close> emits nothing, whatever \<open>ended\<close> events it delivers: the stopped sources have
  lost their handlers.
\<close>

theorem end_iff_all_sources_complete:
  assumes "durations \<noteq> []" and "list_all (\<lambda>e. \<not> is_Play e) evs"
  shows "endEmitted (play ctx (am_run hist (AudioManager_create durations startDelay fallbackLength)))
      = endEmitted (am_run hist (AudioManager_create durations startDelay fallbackLength))
    \<and> endEmitted (am_run evs
         (play ctx (am_run hist (AudioManager_create durations startDelay fallbackLength))))
      = endEmitted (am_run hist (AudioManager_create durations startDelay fallbackLength)) +
        (if set (audioSources
               (play ctx (am_run hist (AudioManager_create durations startDelay fallbackLength))))
            \<subseteq> ended_before_stop evs
         then 1 else 0)
    \<and> endEmitted (am_run evs
         (pause ctx (am_run hist (AudioManager_create durations startDelay fallbackLength))))
      = endEmitted (am_run hist (AudioManager_create durations startDelay fallbackLength))
    \<and> endEmitted (am_run evs
         (seek ctx percentComplete
            (am_run hist (AudioManager_create durations startDelay fallbackLength))))
      = endEmitted (am_run hist (AudioManager_create durations startDelay fallbackLength))"
proof -
  define m where "m = am_run hist (AudioManager_create durations startDelay fallbackLength)"
  from am_run_tracked [OF create_tracked(1), of hist durations startDelay fallbackLength]
  have G: "handlers_tracked m" and B: "audioBuffers m \<noteq> []"
    unfolding m_def using assms(1) by (simp_all add: create_tracked(2))
  from G B have T: "\<not> timerPending m" unfolding handlers_tracked_def by blast
  have a: "endEmitted (play ctx m) = endEmitted m" by (simp add: play_fields)
  have b: "endEmitted (am_run evs (play ctx m)) = endEmitted m +
        (if set (audioSources (play ctx m)) \<subseteq> ended_before_stop evs then 1 else 0)"
    using am_run_session [OF play_session_inv [OF G B, of ctx] assms(2)] by simp
  have c: "endEmitted (am_run evs (pause ctx m)) = endEmitted m"
    using am_run_detached [OF pause_detached [OF G T, of ctx] assms(2)]
    by (simp add: pause_fields)
  have d: "endEmitted (am_run evs (seek ctx percentComplete m)) = endEmitted m"
    using am_run_detached [OF seek_detached [OF G T, of ctx percentComplete] assms(2)]
    by (simp add: seek_fields')
  from a b c d show ?thesis unfolding m_def by blast
qed

text \<open>
  Two buffers. Both sources complete: one \<open>end\<close>. A \<open>pause\<close> between the two completions: no
  \<open>end\<close>. A \<open>seek\<close> while playing, then the \<open>ended\<close> events of the stopped sources: no \<open>end\<close>.
\<close>

theorem end_iff_all_sources_complete_witness:
  "[3, 4 :: real] \<noteq> []
   \<and> list_all (\<lambda>e. \<not> is_Play e) [Ended 0, TimerFired, Ended 1]
   \<and> endEmitted (am_run [Ended 0, TimerFired, Ended 1]
      (play \<lparr>currentTime = 7, baseLatency = 0, outputLatency = None\<rparr>
         (AudioManager_create [3, 4] 0 0))) = 1
   \<and> endEmitted (am_run [Ended 0, Pause \<lparr>currentTime = 8, baseLatency = 0, outputLatency = None\<rparr>,
                          Ended 1]
      (play \<lparr>currentTime = 7, baseLatency = 0, outputLatency = None\<rparr>
         (AudioManager_create [3, 4] 0 0))) = 0
   \<and> endEmitted (am_run [Ended 0, Ended 1]
      (seek \<lparr>currentTime = 8, baseLatency = 0, outputLatency = None\<rparr> (1/2)
        (play \<lparr>currentTime = 7, baseLatency = 0, outputLatency = None\<rparr>
          (AudioManager_create [3, 4] 0 0)))) = 0"
proof -
  let ?c7 = "\<lparr>currentTime = 7, baseLatency = 0, outputLatency = None\<rparr>"
  let ?c8 = "\<lparr>currentTime = 8, baseLatency = 0, outputLatency = None\<rparr>"
  let ?m = "AudioManager_create [3, 4] 0 0"
  have ne: "[3, 4 :: real] \<noteq> []" by simp
  have src: "audioSources (play ?c7 ?m) = [0, 1]"
    by (simp add: play_audioSources AudioManager_create_def AudioManager_new_def
        decodeAudioFiles_def upt_rec)
  have e0: "endEmitted ?m = 0"
    by (simp add: AudioManager_create_def AudioManager_new_def decodeAudioFiles_def)
  have np1: "list_all (\<lambda>e. \<not> is_Play e) [Ended 0, TimerFired, Ended 1]" by simp
  have np2: "list_all (\<lambda>e. \<not> is_Play e) [Ended 0, Pause ?c8, Ended 1]" by simp
  have np3: "list_all (\<lambda>e. \<not> is_Play e) [Ended 0, Ended 1]" by simp
  note t1 = end_iff_all_sources_complete [OF ne np1, where ctx = ?c7 and hist = "[]" and startDelay = 0
      and fallbackLength = 0 and percentComplete = 0, THEN conjunct2, THEN conjunct1]
  note t2 = end_iff_all_sources_complete [OF ne np2, where ctx = ?c7 and hist = "[]" and startDelay = 0
      and fallbackLength = 0 and percentComplete = 0, THEN conjunct2, THEN conjunct1]
  note t3 = end_iff_all_sources_complete [OF ne np3, where ctx = ?c8 and hist = "[Play ?c7]" and startDelay = 0
      and fallbackLength = 0 and percentComplete = "1/2", THEN conjunct2, THEN conjunct2,
      THEN conjunct2]
  have a: "endEmitted (am_run [Ended 0, TimerFired, Ended 1] (play ?c7 ?m)) = 1"
    using t1 by (simp add: src e0)
  have b: "endEmitted (am_run [Ended 0, Pause ?c8, Ended 1] (play ?c7 ?m)) = 0"
    using t2 by (simp add: src e0)
  have c: "endEmitted (am_run [Ended 0, Ended 1] (seek ?c8 (1/2) (play ?c7 ?m))) = 0"
    using t3 by (simp add: play_fields e0)
  from ne np1 a b c show ?thesis by blast
qed

section \<open>Facts about the frame loop\<close>

lemma animateFrame_interval [simp]:
  "progressIntervalMs (animateFrame f cp) = progressIntervalMs cp"
  by (simp add: animateFrame_def split: prod.splits)

lemma animateFrames_log:
  "\<exists>new. progressEmitted (animateFrames frames cp) = progressEmitted cp @ new \<and>
         successively (\<lambda>a b. b - a \<ge> progressIntervalMs cp)
           (lastProgressEmitTime cp # map fst new)"
proof (induction frames arbitrary: cp)
  case Nil
  show ?case by (simp add: animateFrames_def)
next
  case (Cons f frames)
  obtain emit now progress where f: "f = (emit, now, progress)"
    by (cases f) auto
  from Cons [of "animateFrame f cp"]
  obtain new where new:
    "progressEmitted (animateFrames frames (animateFrame f cp)) =
       progressEmitted (animateFrame f cp) @ new"
    "successively (\<lambda>a b. b - a \<ge> progressIntervalMs cp)
       (lastProgressEmitTime (animateFrame f cp) # map fst new)"
    by auto
  have run: "animateFrames (f # frames) cp = animateFrames frames (animateFrame f cp)"
    by (simp add: animateFrames_def)
  show ?case
  proof (cases "emit \<and> now - lastProgressEmitTime cp \<ge> progressIntervalMs cp")
    case True
    then have step: "animateFrame f cp =
        cp\<lparr> lastProgressEmitTime := now,
            progressEmitted := progressEmitted cp @ [(now, progress)] \<rparr>"
      by (simp add: animateFrame_def f)
    from new True show ?thesis
      unfolding run step by (intro exI [of _ "(now, progress) # new"]) simp
  next
    case False
    then have step: "animateFrame f cp = cp"
      by (auto simp: animateFrame_def f)
    from new show ?thesis unfolding run step by blast
  qed
qed

text \<open>
  Claim C9. In the log of progress notifications of a preview, from its creation through any
  sequence of frames, two successive notifications are at least \<open>progressIntervalMs\<close> apart
  on the \<open>performance.now()\<close> clock. The same holds from any state, counting from
  \<open>lastProgressEmitTime\<close>. A frame whose clock reading is less than \<open>progressIntervalMs\<close>
  after \<open>lastProgressEmitTime\<close>, or that is drawn with \<open>emit = false\<close>, changes nothing.
\<close>

theorem progress_throttled:
  "successively (\<lambda>a b. b - a \<ge> interval)
     (map fst (progressEmitted (animateFrames frames (ChartPreview_new interval))))
   \<and> successively (\<lambda>a b. b - a \<ge> progressIntervalMs cp)
       (lastProgressEmitTime cp #
        map fst (drop (length (progressEmitted cp)) (progressEmitted (animateFrames frames cp))))
   \<and> (now - lastProgressEmitTime cp < progressIntervalMs cp \<longrightarrow>
        animateFrame (emit, now, progress) cp = cp)
   \<and> animateFrame (False, now, progress) cp = cp"
proof -
  from animateFrames_log [of frames "ChartPreview_new interval"]
  have a: "successively (\<lambda>a b. b - a \<ge> interval)
     (map fst (progressEmitted (animateFrames frames (ChartPreview_new interval))))"
    by (auto simp: ChartPreview_new_def successively_Cons)
  from animateFrames_log [of frames cp]
  have b: "successively (\<lambda>a b. b - a \<ge> progressIntervalMs cp)
       (lastProgressEmitTime cp #
        map fst (drop (length (progressEmitted cp)) (progressEmitted (animateFrames frames cp))))"
    by auto
  have c: "now - lastProgressEmitTime cp < progressIntervalMs cp \<longrightarrow>
        animateFrame (emit, now, progress) cp = cp"
    by (simp add: animateFrame_def)
  have d: "animateFrame (False, now, progress) cp = cp"
    by (simp add: animateFrame_def)
  from a b c d show ?thesis by blast
qed

text \<open>
  Frames at 16, 50, 67, 80 and 101 ms with a 50 ms interval: notifications at 50 and 101;
  the frame at 67 is within the interval and emits nothing.
\<close>

theorem progress_throttled_witness:
  "map fst (progressEmitted (animateFrames
      [(True, 16, 0), (True, 50, 1/10), (True, 67, 2/10), (False, 80, 2/10), (True, 101, 3/10)]
      (ChartPreview_new 50))) = [50, 101]
   \<and> (67::real) - lastProgressEmitTime (animateFrames [(True, 16, 0), (True, 50, 1/10)]
          (ChartPreview_new 50)) < 50
   \<and> animateFrame (True, 67, 2/10) (animateFrames [(True, 16, 0), (True, 50, 1/10)]
          (ChartPreview_new 50)) =
       animateFrames [(True, 16, 0), (True, 50, 1/10)] (ChartPreview_new 50)"
  using progress_throttled [where frames = "[(True, 16, 0), (True, 50, 1/10), (True, 67, 2/10), (False, 80, 2/10), (True, 101, 3/10)]"
      and interval = 50 and now = 67 and emit = True and progress = "2/10"
      and cp = "animateFrames [(True, 16, 0), (True, 50, 1/10)] (ChartPreview_new 50)"]
  by (simp add: animateFrames_def animateFrame_def ChartPreview_new_def)

section \<open>Facts about EventSequence\<close>

subsection \<open>The cursor stays consistent\<close>

lemma array_get_Some: "array_get xs i = Some x \<longleftrightarrow> 0 \<le> i \<and> i < int (length xs) \<and> x = xs ! nat i"
  by (auto simp: array_get_def)

lemma array_get_None: "array_get xs i = None \<longleftrightarrow> \<not> (0 \<le> i \<and> i < int (length xs))"
  by (auto simp: array_get_def)

lemma cursor_ok_new: "cursor_ok (EventSequence_new es)"
  by (simp add: cursor_ok_def EventSequence_new_def)

lemma set_update_distinct:
  "distinct (map fst al) \<Longrightarrow>
   set (AList.update k v al) = {p \<in> set al. fst p \<noteq> k} \<union> {(k, v)}"
  by (induction al) (auto simp: rev_image_eqI)

lemma scan_step_fields [simp]:
  "events (scan_step e s) = events s"
  "lastPrecedingEventIndex (scan_step e s) = lastPrecedingEventIndex s + 1"
  "lastPrecedingEventIndexesOfType (scan_step e s) =
     AList.update (type e) (lastPrecedingEventIndex s + 1) (lastPrecedingEventIndexesOfType s)"
  by (simp_all add: scan_step_def)

lemma cursor_okI:
  assumes "-1 \<le> lastPrecedingEventIndex s"
    and "lastPrecedingEventIndex s < int (length (events s))"
    and "distinct (map fst (lastPrecedingEventIndexesOfType s))"
    and "\<And>ty i. (ty, i) \<in> set (lastPrecedingEventIndexesOfType s) \<Longrightarrow>
        0 \<le> i \<and> i \<le> lastPrecedingEventIndex s \<and> type (events s ! nat i) = ty \<and>
        last_of_type (events s) (lastPrecedingEventIndex s) i"
    and "\<And>j. 0 \<le> j \<Longrightarrow> j \<le> lastPrecedingEventIndex s \<Longrightarrow>
        type (events s ! nat j) \<in> fst ` set (lastPrecedingEventIndexesOfType s)"
  shows "cursor_ok s"
  unfolding cursor_ok_def using assms by (intro conjI ballI) (blast, blast, blast, fast, simp)

lemma cursor_okD:
  assumes "cursor_ok s"
  shows "-1 \<le> lastPrecedingEventIndex s"
    and "lastPrecedingEventIndex s < int (length (events s))"
    and "distinct (map fst (lastPrecedingEventIndexesOfType s))"
    and "\<And>ty i. (ty, i) \<in> set (lastPrecedingEventIndexesOfType s) \<Longrightarrow>
        0 \<le> i \<and> i \<le> lastPrecedingEventIndex s \<and> type (events s ! nat i) = ty \<and>
        last_of_type (events s) (lastPrecedingEventIndex s) i"
    and "\<And>j. 0 \<le> j \<Longrightarrow> j \<le> lastPrecedingEventIndex s \<Longrightarrow>
        type (events s ! nat j) \<in> fst ` set (lastPrecedingEventIndexesOfType s)"
  using assms unfolding cursor_ok_def by (blast, blast, blast, fast, simp)

lemma cursor_ok_scan_step:
  assumes ok: "cursor_ok s" and nxt: "lastPrecedingEventIndex s + 1 < int (length (events s))"
    and e: "e = events s ! nat (lastPrecedingEventIndex s + 1)"
  shows "cursor_ok (scan_step e s)"
  unfolding e
proof (rule cursor_okI)
  let ?L = "lastPrecedingEventIndex s" and ?m = "lastPrecedingEventIndexesOfType s"
  let ?es = "events s"
  let ?e = "?es ! nat (?L + 1)"
  let ?ty = "type ?e"
  note d = cursor_okD(3) [OF ok] and lo = cursor_okD(1) [OF ok]
    and ent = cursor_okD(4) [OF ok] and cov = cursor_okD(5) [OF ok]
  have set': "set (AList.update ?ty (?L + 1) ?m) = {p \<in> set ?m. fst p \<noteq> ?ty} \<union> {(?ty, ?L + 1)}"
    using d by (rule set_update_distinct)
  show "-1 \<le> lastPrecedingEventIndex (scan_step ?e s)" using lo by simp
  show "lastPrecedingEventIndex (scan_step ?e s) < int (length (events (scan_step ?e s)))"
    using nxt by simp
  show "distinct (map fst (lastPrecedingEventIndexesOfType (scan_step ?e s)))"
    using d by (simp add: distinct_update)
  show "0 \<le> i \<and> i \<le> lastPrecedingEventIndex (scan_step ?e s) \<and>
        type (events (scan_step ?e s) ! nat i) = ty \<and>
        last_of_type (events (scan_step ?e s)) (lastPrecedingEventIndex (scan_step ?e s)) i"
    if "(ty, i) \<in> set (lastPrecedingEventIndexesOfType (scan_step ?e s))" for ty i
  proof (cases "(ty, i) = (?ty, ?L + 1)")
    case True
    then show ?thesis using lo by (simp add: last_of_type_def)
  next
    case False
    with that set' have in_m: "(ty, i) \<in> set ?m" and ne: "ty \<noteq> ?ty" by auto
    note h = ent [OF in_m]
    have "type (?es ! nat j) \<noteq> type (?es ! nat i)" if j: "j \<in> {i + 1 .. ?L + 1}" for j
    proof (cases "j = ?L + 1")
      case True
      with ne h show ?thesis by simp
    next
      case False
      with j have "j \<in> {i + 1 .. ?L}" by simp
      with h show ?thesis unfolding last_of_type_def by blast
    qed
    then have "last_of_type ?es (?L + 1) i" unfolding last_of_type_def by blast
    with h show ?thesis by simp
  qed
  show "type (events (scan_step ?e s) ! nat j) \<in> fst ` set (lastPrecedingEventIndexesOfType (scan_step ?e s))"
    if "0 \<le> j" "j \<le> lastPrecedingEventIndex (scan_step ?e s)" for j
  proof (cases "type (?es ! nat j) = ?ty")
    case True
    then show ?thesis by (simp add: set')
  next
    case False
    with that have "j \<le> ?L" by (cases "j = ?L + 1") auto
    from cov [OF that(1) this] obtain p where "p \<in> set ?m" "fst p = type (?es ! nat j)"
      by auto
    with False have "p \<in> set (AList.update ?ty (?L + 1) ?m)" unfolding set' by simp
    with \<open>fst p = type (?es ! nat j)\<close> show ?thesis by (simp add: image_iff) metis
  qed
qed

lemma scan_forward_props:
  assumes "cursor_ok s"
  shows "cursor_ok (scan_forward t s)
    \<and> events (scan_forward t s) = events s
    \<and> lastPrecedingEventIndex s \<le> lastPrecedingEventIndex (scan_forward t s)
    \<and> (\<forall>j. lastPrecedingEventIndex s < j \<and> j \<le> lastPrecedingEventIndex (scan_forward t s)
          \<longrightarrow> msTime (events s ! nat j) < t)
    \<and> (lastPrecedingEventIndex (scan_forward t s) + 1 < int (length (events s))
          \<longrightarrow> \<not> msTime (events s ! nat (lastPrecedingEventIndex (scan_forward t s) + 1)) < t)"
  using assms
proof (induction t s rule: scan_forward.induct)
  case (1 t s)
  let ?L = "lastPrecedingEventIndex s"
  note lo = cursor_okD(1) [OF "1.prems"]
  show ?case
  proof (cases "array_get (events s) (?L + 1)")
    case None
    then have stop: "scan_forward t s = s" by (subst scan_forward.simps) simp
    from None lo have "\<not> ?L + 1 < int (length (events s))" by (simp add: array_get_None)
    with "1.prems" show ?thesis unfolding stop by simp
  next
    case (Some e)
    then have e: "e = events s ! nat (?L + 1)" and nxt: "?L + 1 < int (length (events s))"
      by (simp_all add: array_get_Some)
    show ?thesis
    proof (cases "msTime e < t")
      case False
      with Some have stop: "scan_forward t s = s" by (subst scan_forward.simps) simp
      from False e "1.prems" show ?thesis unfolding stop by simp
    next
      case True
      with Some have go: "scan_forward t s = scan_forward t (scan_step e s)"
        by (subst scan_forward.simps) simp
      have ok': "cursor_ok (scan_step e s)"
        using "1.prems" nxt e by (rule cursor_ok_scan_step)
      note ih = "1.IH" [OF Some True ok', simplified]
      let ?L' = "lastPrecedingEventIndex (scan_forward t (scan_step e s))"
      from ih have le: "?L + 1 \<le> ?L'" by blast
      have rng: "msTime (events s ! nat j) < t" if "?L < j" "j \<le> ?L'" for j
      proof (cases "j = ?L + 1")
        case True
        with \<open>msTime e < t\<close> e show ?thesis by simp
      next
        case False
        with that have "?L + 1 < j" by simp
        with ih that show ?thesis by blast
      qed
      from ih le rng show ?thesis unfolding go by auto
    qed
  qed
qed

lemma reset_cursor_ok:
  assumes "cursor_ok s"
  shows "reset_cursor t s = Inr (cursor_after_reset t s)"
proof (cases "lastPrecedingEventIndex s = -1")
  case True
  then show ?thesis by (simp add: reset_cursor_def cursor_after_reset_def)
next
  case False
  with cursor_okD(1,2) [OF assms]
  have "array_get (events s) (lastPrecedingEventIndex s) =
          Some (events s ! nat (lastPrecedingEventIndex s))"
    by (simp add: array_get_def)
  with False show ?thesis by (simp add: reset_cursor_def cursor_after_reset_def)
qed

lemma cursor_after_reset_ok: "cursor_ok s \<Longrightarrow> cursor_ok (cursor_after_reset t s)"
  by (simp add: cursor_after_reset_def cursor_ok_def)

lemma cursor_after_reset_events [simp]: "events (cursor_after_reset t s) = events s"
  by (simp add: cursor_after_reset_def)

lemma Min_insert_min:
  fixes a i :: int
  assumes "finite S"
  shows "Min (insert (min a i) S) = Min (insert a (insert i S))"
proof (cases "S = {}")
  case True
  then show ?thesis by (simp add: min.commute)
next
  case False
  with assms show ?thesis by (simp add: min.assoc)
qed

lemma earliest_active_char:
  assumes "\<And>ty i. (ty, i) \<in> set m \<Longrightarrow> 0 \<le> i \<and> i < int (length es)"
  shows "earliest_active es t m acc =
    Inr (if {i \<in> snd ` set m. still_open es t i} \<union> set_option acc = {} then None
         else Some (Min ({i \<in> snd ` set m. still_open es t i} \<union> set_option acc)))"
  using assms
proof (induction m arbitrary: acc)
  case Nil
  then show ?case by (cases acc) simp_all
next
  case (Cons p m)
  obtain ty i where p: "p = (ty, i)" by (cases p)
  from Cons.prems [of ty i] p have i: "0 \<le> i" "i < int (length es)" by simp_all
  then have get: "array_get es i = Some (es ! nat i)" by (simp add: array_get_def)
  have rest: "0 \<le> i \<and> i < int (length es)" if "(ty, i) \<in> set m" for ty i
    using Cons.prems [of ty i] that by simp
  let ?A = "{i \<in> snd ` set m. still_open es t i}"
  have fin: "finite ?A" by simp
  show ?case
  proof (cases "still_open es t i")
    case False
    then have same: "{j \<in> snd ` set (p # m). still_open es t j} = ?A"
      by (auto simp: p)
    from False have "earliest_active es t (p # m) acc = earliest_active es t m acc"
      by (simp add: p get still_open_def)
    then show ?thesis unfolding same by (simp add: Cons.IH [OF rest])
  next
    case True
    then have more: "{j \<in> snd ` set (p # m). still_open es t j} = insert i ?A"
      by (auto simp: p)
    show ?thesis
    proof (cases acc)
      case None
      with True have "earliest_active es t (p # m) acc = earliest_active es t m (Some i)"
        by (simp add: p get still_open_def)
      then show ?thesis unfolding more by (simp add: Cons.IH [OF rest] None)
    next
      case (Some a)
      with True have "earliest_active es t (p # m) acc = earliest_active es t m (Some (min a i))"
        by (simp add: p get still_open_def min_def)
      then show ?thesis unfolding more
        using Min_insert_min [OF fin, of a i]
        by (simp add: Cons.IH [OF rest] Some insert_commute)
    qed
  qed
qed

lemma recorded_indices:
  assumes ok: "cursor_ok s"
  shows "snd ` set (lastPrecedingEventIndexesOfType s) =
    {i \<in> {0 .. lastPrecedingEventIndex s}.
       last_of_type (events s) (lastPrecedingEventIndex s) i}"
    (is "?lhs = ?rhs")
proof (intro set_eqI iffI)
  fix i assume "i \<in> ?lhs"
  then obtain ty where "(ty, i) \<in> set (lastPrecedingEventIndexesOfType s)" by auto
  from cursor_okD(4) [OF ok this] show "i \<in> ?rhs" by simp
next
  let ?L = "lastPrecedingEventIndex s" and ?es = "events s"
  fix i assume "i \<in> ?rhs"
  then have i: "0 \<le> i" "i \<le> ?L" and last_i: "last_of_type ?es ?L i" by simp_all
  from cursor_okD(5) [OF ok i] obtain i' where
    mem: "(type (?es ! nat i), i') \<in> set (lastPrecedingEventIndexesOfType s)"
    by auto
  note h = cursor_okD(4) [OF ok mem]
  have "i' = i"
  proof (rule ccontr)
    assume ne: "i' \<noteq> i"
    show False
    proof (cases "i < i'")
      case True
      with h have "i' \<in> {i + 1 .. ?L}" by simp
      with last_i h show False unfolding last_of_type_def by auto
    next
      case False
      with ne i have "i \<in> {i' + 1 .. ?L}" by simp
      with h show False unfolding last_of_type_def by auto
    qed
  qed
  with mem show "i \<in> ?lhs" by force
qed

lemma getEarliestActiveEventIndex_char:
  assumes ok: "cursor_ok s"
  shows "getEarliestActiveEventIndex t s =
           Inr (lowest_open_recorded (events s)
                  (lastPrecedingEventIndex (scan_forward t (cursor_after_reset t s))) t,
                scan_forward t (cursor_after_reset t s))"
    and "cursor_ok (scan_forward t (cursor_after_reset t s))"
    and "events (scan_forward t (cursor_after_reset t s)) = events s"
proof -
  define s2 where "s2 = scan_forward t (cursor_after_reset t s)"
  note ok1 = cursor_after_reset_ok [OF ok, of t]
  note sc = scan_forward_props [OF ok1, of t, folded s2_def]
  from sc have ok2: "cursor_ok s2" by blast
  from sc have ev2: "events s2 = events s" by simp
  from ok2 show "cursor_ok (scan_forward t (cursor_after_reset t s))" unfolding s2_def .
  from ev2 show "events (scan_forward t (cursor_after_reset t s)) = events s" unfolding s2_def .
  let ?m = "lastPrecedingEventIndexesOfType s2" and ?L = "lastPrecedingEventIndex s2"
  have rng: "\<And>ty i. (ty, i) \<in> set ?m \<Longrightarrow> 0 \<le> i \<and> i < int (length (events s2))"
    using cursor_okD(4) [OF ok2] cursor_okD(2) [OF ok2] by force
  have A: "{i \<in> snd ` set ?m. still_open (events s2) t i} = open_recorded (events s) ?L t"
    unfolding recorded_indices [OF ok2] open_recorded_def ev2 by auto
  have ea: "earliest_active (events s2) t ?m None =
      Inr (if open_recorded (events s) ?L t = {} then None
           else Some (Min (open_recorded (events s) ?L t)))"
    using earliest_active_char [of ?m "events s2" t None, OF rng] unfolding A by simp
  have "getEarliestActiveEventIndex t s = Inr (lowest_open_recorded (events s) ?L t, s2)"
    unfolding getEarliestActiveEventIndex_def reset_cursor_ok [OF ok, of t]
    by (simp add: Let_def s2_def [symmetric] ea lowest_open_recorded_def)
  then show "getEarliestActiveEventIndex t s =
           Inr (lowest_open_recorded (events s)
                  (lastPrecedingEventIndex (scan_forward t (cursor_after_reset t s))) t,
                scan_forward t (cursor_after_reset t s))"
    unfolding s2_def .
qed

lemma cursor_behind_query:
  assumes ok: "cursor_ok s"
  shows "lastPrecedingEventIndex (scan_forward t (cursor_after_reset t s)) \<noteq> -1 \<Longrightarrow>
           msTime (events s ! nat (lastPrecedingEventIndex (scan_forward t (cursor_after_reset t s))))
             \<le> t"
    and "\<And>j. lastPrecedingEventIndex (cursor_after_reset t s) < j \<Longrightarrow>
           j \<le> lastPrecedingEventIndex (scan_forward t (cursor_after_reset t s)) \<Longrightarrow>
           msTime (events s ! nat j) < t"
    and "lastPrecedingEventIndex (scan_forward t (cursor_after_reset t s)) + 1
           < int (length (events s)) \<Longrightarrow>
         \<not> msTime (events s !
               nat (lastPrecedingEventIndex (scan_forward t (cursor_after_reset t s)) + 1)) < t"
    and "lastPrecedingEventIndex (cursor_after_reset t s)
           \<le> lastPrecedingEventIndex (scan_forward t (cursor_after_reset t s))"
proof -
  define s1 where "s1 = cursor_after_reset t s"
  define s2 where "s2 = scan_forward t s1"
  have ok1: "cursor_ok s1" unfolding s1_def using ok by (rule cursor_after_reset_ok)
  have ev1: "events s1 = events s" unfolding s1_def by simp
  note sc = scan_forward_props [OF ok1, of t, folded s2_def, unfolded ev1]
  from sc have rng: "\<And>j. lastPrecedingEventIndex s1 < j \<Longrightarrow> j \<le> lastPrecedingEventIndex s2 \<Longrightarrow>
           msTime (events s ! nat j) < t" by blast
  from sc have stop: "lastPrecedingEventIndex s2 + 1 < int (length (events s)) \<Longrightarrow>
           \<not> msTime (events s ! nat (lastPrecedingEventIndex s2 + 1)) < t" by blast
  from sc have le: "lastPrecedingEventIndex s1 \<le> lastPrecedingEventIndex s2" by blast
  have behind: "msTime (events s ! nat (lastPrecedingEventIndex s2)) \<le> t"
    if ne: "lastPrecedingEventIndex s2 \<noteq> -1"
  proof (cases "lastPrecedingEventIndex s1 < lastPrecedingEventIndex s2")
    case True
    from rng [OF True] show ?thesis by simp
  next
    case False
    with le have eq: "lastPrecedingEventIndex s2 = lastPrecedingEventIndex s1" by simp
    with ne show ?thesis unfolding eq s1_def cursor_after_reset_def by (simp split: if_splits)
  qed
  from behind show "lastPrecedingEventIndex (scan_forward t (cursor_after_reset t s)) \<noteq> -1 \<Longrightarrow>
           msTime (events s ! nat (lastPrecedingEventIndex (scan_forward t (cursor_after_reset t s))))
             \<le> t"
    unfolding s2_def s1_def .
  from rng show "\<And>j. lastPrecedingEventIndex (cursor_after_reset t s) < j \<Longrightarrow>
           j \<le> lastPrecedingEventIndex (scan_forward t (cursor_after_reset t s)) \<Longrightarrow>
           msTime (events s ! nat j) < t"
    unfolding s2_def s1_def .
  from stop show "lastPrecedingEventIndex (scan_forward t (cursor_after_reset t s)) + 1
           < int (length (events s)) \<Longrightarrow>
         \<not> msTime (events s !
               nat (lastPrecedingEventIndex (scan_forward t (cursor_after_reset t s)) + 1)) < t"
    unfolding s2_def s1_def .
  from le show "lastPrecedingEventIndex (cursor_after_reset t s)
           \<le> lastPrecedingEventIndex (scan_forward t (cursor_after_reset t s))"
    unfolding s2_def s1_def .
qed

lemma finite_open_recorded [simp]: "finite (open_recorded es L t)"
proof -
  have "open_recorded es L t \<subseteq> {0 .. L}" unfolding open_recorded_def by blast
  then show ?thesis by (rule finite_subset) simp
qed

lemma lowest_open_recorded_le: "-1 \<le> L \<Longrightarrow> lowest_open_recorded es L t \<le> L + 1"
proof (cases "open_recorded es L t = {}")
  case True
  then show ?thesis by (simp add: lowest_open_recorded_def)
next
  case False
  then have "Min (open_recorded es L t) \<in> open_recorded es L t" by (simp add: Min_in)
  then have "Min (open_recorded es L t) \<le> L" by (simp add: open_recorded_def)
  with False show ?thesis by (simp add: lowest_open_recorded_def)
qed

lemma lowest_open_recorded_mono:
  assumes L: "-1 \<le> L1" "L1 \<le> L2" and t: "t1 \<le> t2"
  shows "lowest_open_recorded es L1 t1 \<le> lowest_open_recorded es L2 t2"
proof (cases "open_recorded es L2 t2 = {}")
  case True
  with lowest_open_recorded_le [OF L(1), of es t1] L(2) show ?thesis
    by (simp add: lowest_open_recorded_def)
next
  case False
  define i where "i = Min (open_recorded es L2 t2)"
  from False have "i \<in> open_recorded es L2 t2" unfolding i_def by (simp add: Min_in)
  then have i: "0 \<le> i" "i \<le> L2" "last_of_type es L2 i" "still_open es t2 i"
    by (simp_all add: open_recorded_def)
  from False have r2: "lowest_open_recorded es L2 t2 = i"
    by (simp add: lowest_open_recorded_def i_def)
  show ?thesis
  proof (cases "i \<le> L1")
    case False
    with lowest_open_recorded_le [OF L(1), of es t1] show ?thesis unfolding r2 by simp
  next
    case True
    from i(3) L(2) have "last_of_type es L1 i" unfolding last_of_type_def by simp
    moreover from i(4) t have "still_open es t1 i" unfolding still_open_def by simp
    ultimately have mem: "i \<in> open_recorded es L1 t1"
      using i(1) True by (simp add: open_recorded_def)
    then have "Min (open_recorded es L1 t1) \<le> i" by simp
    with mem show ?thesis unfolding r2 by (auto simp: lowest_open_recorded_def)
  qed
qed

lemma queries_ok:
  assumes "cursor_ok s"
  shows "\<exists>rs s'. queries ts s = Inr (rs, s') \<and> cursor_ok s' \<and> events s' = events s"
  using assms
proof (induction ts arbitrary: s)
  case Nil
  then show ?case by simp
next
  case (Cons t ts)
  note c = getEarliestActiveEventIndex_char [OF Cons.prems, of t]
  from Cons.IH [OF c(2)] c(3) obtain rs s' where
    "queries ts (scan_forward t (cursor_after_reset t s)) = Inr (rs, s')"
    "cursor_ok s'" "events s' = events s"
    by auto
  then show ?case by (simp add: c(1))
qed

lemma queries_new_ok:
  "\<exists>rs s. queries ts (EventSequence_new es) = Inr (rs, s) \<and> cursor_ok s \<and> events s = es"
  using queries_ok [OF cursor_ok_new, of ts es] by (simp add: EventSequence_new_def)

subsection \<open>What a query returns\<close>

text \<open>
  Claim C2, as the code has it. On a sequence that has answered any queries \<open>ts\<close> since its
  creation, \<open>getEarliestActiveEventIndex(nowMs)\<close> returns without error. After the reset phase
  it scans forward over the following events as long as their \<open>msTime\<close> is below \<open>nowMs\<close>.
  With \<open>L\<close> the last scanned index, the result is the lowest index \<open>i \<le> L\<close> such that
  event \<open>i\<close> is the last event of its type up to \<open>L\<close> and \<open>msTime + msLength > nowMs\<close>, and
  \<open>L + 1\<close> if there is no such index. For a fresh sequence over one event with \<open>msTime\<close> 1000
  and \<open>msLength\<close> 500, the queries at 900, 1000, 1400 and 1600 return 0, 0, 0 and 1.
\<close>

theorem earliest_index_lowest_open_recorded:
  "(\<exists>rs s r s'.
      queries ts (EventSequence_new es) = Inr (rs, s) \<and>
      getEarliestActiveEventIndex nowMs s = Inr (r, s') \<and>
      events s' = es \<and>
      lastPrecedingEventIndex (cursor_after_reset nowMs s) \<le> lastPrecedingEventIndex s' \<and>
      (\<forall>j. lastPrecedingEventIndex (cursor_after_reset nowMs s) < j \<and>
            j \<le> lastPrecedingEventIndex s' \<longrightarrow> msTime (es ! nat j) < nowMs) \<and>
      (lastPrecedingEventIndex s' + 1 < int (length es) \<longrightarrow>
         \<not> msTime (es ! nat (lastPrecedingEventIndex s' + 1)) < nowMs) \<and>
      r = lowest_open_recorded es (lastPrecedingEventIndex s') nowMs)
   \<and> queries [900, 1000, 1400, 1600]
        (EventSequence_new [\<lparr> msTime = 1000, msLength = 500, type = ty \<rparr>])
      = Inr ([0, 0, 0, 1],
          \<lparr> events = [\<lparr> msTime = 1000, msLength = 500, type = ty \<rparr>],
            lastPrecedingEventIndexesOfType = [(ty, 0)],
            lastPrecedingEventIndex = 0 \<rparr>)"
proof
  from queries_new_ok [of ts es] obtain rs s where
    q: "queries ts (EventSequence_new es) = Inr (rs, s)" and ok: "cursor_ok s"
    and ev: "events s = es"
    by blast
  define s' where "s' = scan_forward nowMs (cursor_after_reset nowMs s)"
  note c = getEarliestActiveEventIndex_char [OF ok, of nowMs, folded s'_def, unfolded ev]
  note b = cursor_behind_query [OF ok, of nowMs, folded s'_def, unfolded ev]
  from q c b(2,3,4) show "\<exists>rs s r s'.
      queries ts (EventSequence_new es) = Inr (rs, s) \<and>
      getEarliestActiveEventIndex nowMs s = Inr (r, s') \<and>
      events s' = es \<and>
      lastPrecedingEventIndex (cursor_after_reset nowMs s) \<le> lastPrecedingEventIndex s' \<and>
      (\<forall>j. lastPrecedingEventIndex (cursor_after_reset nowMs s) < j \<and>
            j \<le> lastPrecedingEventIndex s' \<longrightarrow> msTime (es ! nat j) < nowMs) \<and>
      (lastPrecedingEventIndex s' + 1 < int (length es) \<longrightarrow>
         \<not> msTime (es ! nat (lastPrecedingEventIndex s' + 1)) < nowMs) \<and>
      r = lowest_open_recorded es (lastPrecedingEventIndex s') nowMs"
    by blast
next
  show "queries [900, 1000, 1400, 1600]
        (EventSequence_new [\<lparr> msTime = 1000, msLength = 500, type = ty \<rparr>])
      = Inr ([0, 0, 0, 1],
          \<lparr> events = [\<lparr> msTime = 1000, msLength = 500, type = ty \<rparr>],
            lastPrecedingEventIndexesOfType = [(ty, 0)],
            lastPrecedingEventIndex = 0 \<rparr>)"
    by (simp add: getEarliestActiveEventIndex_def reset_cursor_def scan_forward.simps
      scan_step_def array_get_def EventSequence_new_def Let_def)
qed

text \<open>
  A sustained event in one lane and two short events in another, queried at 500: the first
  two events are scanned, the short one at index 1 has ended, and the result is index 0.
\<close>

theorem earliest_index_lowest_open_recorded_witness:
  "getEarliestActiveEventIndex 500
     (EventSequence_new [\<lparr> msTime = 0, msLength = 1000, type = (0::nat) \<rparr>,
                         \<lparr> msTime = 100, msLength = 0, type = 1 \<rparr>,
                         \<lparr> msTime = 600, msLength = 0, type = 1 \<rparr>])
   = Inr (0, \<lparr> events = [\<lparr> msTime = 0, msLength = 1000, type = (0::nat) \<rparr>,
                         \<lparr> msTime = 100, msLength = 0, type = 1 \<rparr>,
                         \<lparr> msTime = 600, msLength = 0, type = 1 \<rparr>],
              lastPrecedingEventIndexesOfType = [(0, 0), (1, 1)],
              lastPrecedingEventIndex = 1 \<rparr>)
   \<and> lowest_open_recorded [\<lparr> msTime = 0, msLength = 1000, type = (0::nat) \<rparr>,
                         \<lparr> msTime = 100, msLength = 0, type = 1 \<rparr>,
                         \<lparr> msTime = 600, msLength = 0, type = 1 \<rparr>] 1 500 = 0
   \<and> msTime ([\<lparr> msTime = 0, msLength = 1000, type = (0::nat) \<rparr>,
                \<lparr> msTime = 100, msLength = 0, type = 1 \<rparr>,
                \<lparr> msTime = 600, msLength = 0, type = 1 \<rparr>] ! nat 1) < 500
   \<and> \<not> msTime ([\<lparr> msTime = 0, msLength = 1000, type = (0::nat) \<rparr>,
                  \<lparr> msTime = 100, msLength = 0, type = 1 \<rparr>,
                  \<lparr> msTime = 600, msLength = 0, type = 1 \<rparr>] ! nat (1 + 1)) < 500"
proof -
  let ?es = "[\<lparr> msTime = 0, msLength = 1000, type = (0::nat) \<rparr>,
                         \<lparr> msTime = 100, msLength = 0, type = 1 \<rparr>,
                         \<lparr> msTime = 600, msLength = 0, type = 1 \<rparr>]"
  have run: "getEarliestActiveEventIndex 500 (EventSequence_new ?es)
    = Inr (0, \<lparr> events = ?es, lastPrecedingEventIndexesOfType = [(0, 0), (1, 1)],
              lastPrecedingEventIndex = 1 \<rparr>)"
    by (simp add: getEarliestActiveEventIndex_def reset_cursor_def scan_forward.simps
      scan_step_def array_get_def EventSequence_new_def Let_def)
  from earliest_index_lowest_open_recorded [of "[]" ?es 500, THEN conjunct1] obtain rs s r s' where
    q: "queries [] (EventSequence_new ?es) = Inr (rs, s)"
    and g: "getEarliestActiveEventIndex 500 s = Inr (r, s')"
    and r: "r = lowest_open_recorded ?es (lastPrecedingEventIndex s') 500"
    by blast
  from q have "s = EventSequence_new ?es" by simp
  with g run have r0: "r = 0"
    and s': "s' = \<lparr> events = ?es, lastPrecedingEventIndexesOfType = [(0, 0), (1, 1)],
                     lastPrecedingEventIndex = 1 \<rparr>"
    by simp_all
  have "lastPrecedingEventIndex s' = 1" unfolding s' by simp
  with r r0 have "lowest_open_recorded ?es 1 500 = 0" by simp
  with run show ?thesis by simp
qed

text \<open>
  One event with \<open>msTime\<close> 0 and \<open>msLength\<close> 0, fresh sequence, query at 10. Index 0 is the
  lowest index that qualifies in the words of the contract (unscanned, started before 10),
  but the query returns 1.
\<close>

theorem earliest_index_not_lowest_qualifying:
  "lowest_qualifying (EventSequence_new [\<lparr> msTime = 0, msLength = 0, type = (0::nat) \<rparr>]) 10
     = Some 0
   \<and> getEarliestActiveEventIndex 10
       (EventSequence_new [\<lparr> msTime = 0, msLength = 0, type = (0::nat) \<rparr>])
     = Inr (1, \<lparr> events = [\<lparr> msTime = 0, msLength = 0, type = 0 \<rparr>],
                lastPrecedingEventIndexesOfType = [(0, 0)],
                lastPrecedingEventIndex = 0 \<rparr>)"
  by (simp add: getEarliestActiveEventIndex_def reset_cursor_def scan_forward.simps
      scan_step_def array_get_def EventSequence_new_def Let_def lowest_qualifying_def
      qualifies_def)

subsection \<open>Monotone results\<close>

text \<open>
  Claim C3. On a sequence that has answered any queries \<open>ts\<close> since its creation, two
  successive queries at \<open>t1 < t2\<close> both return, the second does not reset the cursor, and the
  second result is at least the first.
\<close>

theorem earliest_index_monotone:
  assumes "t1 < t2"
  shows "\<exists>rs s r1 s1 r2 s2.
      queries ts (EventSequence_new es) = Inr (rs, s) \<and>
      getEarliestActiveEventIndex t1 s = Inr (r1, s1) \<and>
      reset_cursor t2 s1 = Inr s1 \<and>
      getEarliestActiveEventIndex t2 s1 = Inr (r2, s2) \<and>
      r1 \<le> r2"
proof -
  from queries_new_ok [of ts es] obtain rs s where
    q: "queries ts (EventSequence_new es) = Inr (rs, s)" and ok: "cursor_ok s"
    and ev: "events s = es"
    by blast
  define s1 where "s1 = scan_forward t1 (cursor_after_reset t1 s)"
  note c1 = getEarliestActiveEventIndex_char [OF ok, of t1, folded s1_def]
  note b1 = cursor_behind_query(1) [OF ok, of t1, folded s1_def]
  have keep: "cursor_after_reset t2 s1 = s1"
    using b1 assms c1(3) unfolding cursor_after_reset_def by force
  have reset: "reset_cursor t2 s1 = Inr s1"
    unfolding reset_cursor_ok [OF c1(2), of t2] keep ..
  define s2 where "s2 = scan_forward t2 s1"
  note c2 = getEarliestActiveEventIndex_char [OF c1(2), of t2, unfolded keep, folded s2_def]
  from scan_forward_props [OF c1(2), of t2]
  have le: "lastPrecedingEventIndex s1 \<le> lastPrecedingEventIndex s2"
    unfolding s2_def by blast
  have "lowest_open_recorded (events s) (lastPrecedingEventIndex s1) t1
        \<le> lowest_open_recorded (events s) (lastPrecedingEventIndex s2) t2"
    using cursor_okD(1) [OF c1(2)] le assms by (intro lowest_open_recorded_mono) simp_all
  with q c1(1) c2(1) reset c1(3) show ?thesis by auto
qed

text \<open>
  The single event \<open>(1000, 500)\<close> after queries at 900 and 1000: the queries at 1400 and 1600
  return 0 and 1.
\<close>

theorem earliest_index_monotone_witness:
  "(1400::real) < 1600 \<and>
   (\<exists>rs s r1 s1 r2 s2.
      queries [900, 1000]
        (EventSequence_new [\<lparr> msTime = 1000, msLength = 500, type = (0::nat) \<rparr>]) = Inr (rs, s) \<and>
      getEarliestActiveEventIndex 1400 s = Inr (r1, s1) \<and>
      reset_cursor 1600 s1 = Inr s1 \<and>
      getEarliestActiveEventIndex 1600 s1 = Inr (r2, s2) \<and>
      r1 \<le> r2 \<and> r1 = 0 \<and> r2 = 1)"
proof -
  let ?es = "[\<lparr> msTime = 1000, msLength = 500, type = (0::nat) \<rparr>]"
  have lt: "(1400::real) < 1600" by simp
  from earliest_index_monotone [OF lt, of "[900, 1000]" ?es]
  obtain rs s r1 s1 r2 s2 where
    q: "queries [900, 1000] (EventSequence_new ?es) = Inr (rs, s)"
    and g1: "getEarliestActiveEventIndex 1400 s = Inr (r1, s1)"
    and rs: "reset_cursor 1600 s1 = Inr s1"
    and g2: "getEarliestActiveEventIndex 1600 s1 = Inr (r2, s2)"
    and le: "r1 \<le> r2"
    by blast
  have "queries [900, 1000] (EventSequence_new ?es) = Inr ([0, 0], EventSequence_new ?es)"
    by (simp add: getEarliestActiveEventIndex_def reset_cursor_def scan_forward.simps
      scan_step_def array_get_def EventSequence_new_def Let_def)
  with q have s: "s = EventSequence_new ?es" by simp
  have "getEarliestActiveEventIndex 1400 (EventSequence_new ?es) =
      Inr (0, \<lparr> events = ?es, lastPrecedingEventIndexesOfType = [(0, 0)],
                lastPrecedingEventIndex = 0 \<rparr>)"
    by (simp add: getEarliestActiveEventIndex_def reset_cursor_def scan_forward.simps
      scan_step_def array_get_def EventSequence_new_def Let_def)
  with g1 s have r1: "r1 = 0"
    and s1: "s1 = \<lparr> events = ?es, lastPrecedingEventIndexesOfType = [(0, 0)],
                lastPrecedingEventIndex = 0 \<rparr>"
    by simp_all
  have "getEarliestActiveEventIndex 1600
          \<lparr> events = ?es, lastPrecedingEventIndexesOfType = [(0, 0)],
            lastPrecedingEventIndex = 0 \<rparr> =
      Inr (1, \<lparr> events = ?es, lastPrecedingEventIndexesOfType = [(0, 0)],
                lastPrecedingEventIndex = 0 \<rparr>)"
    by (simp add: getEarliestActiveEventIndex_def reset_cursor_def scan_forward.simps
      scan_step_def array_get_def Let_def)
  with g2 s1 have r2: "r2 = 1" by simp
  from lt q g1 rs g2 le r1 r2 show ?thesis by blast
qed

subsection \<open>When the cursor is reset\<close>

text \<open>
  Claim C7, as the code has it. On a sequence that has answered any queries \<open>ts\<close> since its
  creation, a query at \<open>t\<close> empties the map and sets \<open>lastPrecedingEventIndex\<close> to \<open>-1\<close> before
  scanning exactly when \<open>lastPrecedingEventIndex \<noteq> -1\<close> and \<open>t\<close> is less than the \<open>msTime\<close> of
  the event at \<open>lastPrecedingEventIndex\<close>; otherwise scanning resumes from the cursor as it
  is. The time of the preceding query plays no part.
\<close>

theorem cursor_reset_condition:
  "\<exists>rs s r.
      queries ts (EventSequence_new es) = Inr (rs, s) \<and>
      reset_cursor t s =
        Inr (if lastPrecedingEventIndex s \<noteq> -1 \<and> t < msTime (es ! nat (lastPrecedingEventIndex s))
             then s\<lparr> lastPrecedingEventIndexesOfType := [], lastPrecedingEventIndex := -1 \<rparr>
             else s) \<and>
      getEarliestActiveEventIndex t s =
        Inr (r, scan_forward t
                  (if lastPrecedingEventIndex s \<noteq> -1 \<and>
                      t < msTime (es ! nat (lastPrecedingEventIndex s))
                   then s\<lparr> lastPrecedingEventIndexesOfType := [], lastPrecedingEventIndex := -1 \<rparr>
                   else s))"
proof -
  from queries_new_ok [of ts es] obtain rs s where
    q: "queries ts (EventSequence_new es) = Inr (rs, s)" and ok: "cursor_ok s"
    and ev: "events s = es"
    by blast
  note r = reset_cursor_ok [OF ok, of t, unfolded cursor_after_reset_def ev]
  note c = getEarliestActiveEventIndex_char(1) [OF ok, of t, unfolded cursor_after_reset_def ev]
  from q r c show ?thesis by blast
qed

text \<open>
  The single event \<open>(1000, 500)\<close>, scanned by a query at 2000: a query at 500 resets the
  cursor to that of a fresh sequence.
\<close>

theorem cursor_reset_condition_witness:
  "reset_cursor 500 \<lparr> events = [\<lparr> msTime = 1000, msLength = 500, type = (0::nat) \<rparr>],
                       lastPrecedingEventIndexesOfType = [(0, 0)],
                       lastPrecedingEventIndex = 0 \<rparr>
   = Inr (EventSequence_new [\<lparr> msTime = 1000, msLength = 500, type = (0::nat) \<rparr>])"
proof -
  let ?es = "[\<lparr> msTime = 1000, msLength = 500, type = (0::nat) \<rparr>]"
  let ?s = "\<lparr> events = ?es, lastPrecedingEventIndexesOfType = [(0, 0)],
              lastPrecedingEventIndex = 0 \<rparr>"
  have run: "queries [2000] (EventSequence_new ?es) = Inr ([1], ?s)"
    by (simp add: getEarliestActiveEventIndex_def reset_cursor_def scan_forward.simps
      scan_step_def array_get_def EventSequence_new_def Let_def)
  from cursor_reset_condition [of "[2000]" ?es 500] obtain rs s where
    q: "queries [2000] (EventSequence_new ?es) = Inr (rs, s)"
    and r: "reset_cursor 500 s =
        Inr (if lastPrecedingEventIndex s \<noteq> -1 \<and> 500 < msTime (?es ! nat (lastPrecedingEventIndex s))
             then s\<lparr> lastPrecedingEventIndexesOfType := [], lastPrecedingEventIndex := -1 \<rparr>
             else s)"
    by blast
  from q run have "s = ?s" by simp
  with r show ?thesis by (simp add: EventSequence_new_def)
qed

text \<open>
  The same sequence queried at 2000 and then at 1500: the second query time is less than the
  first, yet the reset phase leaves the cursor alone, and the map still holds index 0 after
  the query.
\<close>

theorem backward_jump_without_reset:
  "queries [2000, 1500] (EventSequence_new [\<lparr> msTime = 1000, msLength = 500, type = (0::nat) \<rparr>])
   = Inr ([1, 1], \<lparr> events = [\<lparr> msTime = 1000, msLength = 500, type = 0 \<rparr>],
            lastPrecedingEventIndexesOfType = [(0, 0)],
            lastPrecedingEventIndex = 0 \<rparr>)
  \<and> reset_cursor 1500 \<lparr> events = [\<lparr> msTime = 1000, msLength = 500, type = (0::nat) \<rparr>],
            lastPrecedingEventIndexesOfType = [(0, 0)],
            lastPrecedingEventIndex = 0 \<rparr>
     = Inr \<lparr> events = [\<lparr> msTime = 1000, msLength = 500, type = 0 \<rparr>],
            lastPrecedingEventIndexesOfType = [(0, 0)],
            lastPrecedingEventIndex = 0 \<rparr>"
  by (simp add: getEarliestActiveEventIndex_def reset_cursor_def scan_forward.simps
      scan_step_def array_get_def EventSequence_new_def Let_def)

end
